theory Spec2Isabelle
  imports Complex_Main "HOL-Library.AList"
begin

section \<open>Data model\<close>

text \<open>
  A Python \<open>str\<close> is a sequence of code points and \<open>len\<close> counts code points, so a
  string is modelled as a list of code points. \<open>ascii\<close> embeds an ASCII literal.
  Python floats are modelled as exact reals: the arithmetic of the scores is
  idealised, rounding errors, infinities and NaN are outside the model.
\<close>

type_synonym pystr = "nat list"

definition ascii :: "string \<Rightarrow> pystr" where
  "ascii s = map of_char s"

text \<open>
  The \<open>metadata\<close> dictionary of a chunk. Every field is read with \<open>.get\<close>, so each
  one may be absent (\<open>None\<close>).
\<close>

record metadata =
  code_source :: "pystr option"
  article_number :: "pystr option"
  chunk_id :: "pystr option"

text \<open>
  A search result is a dictionary. \<open>text\<close>, \<open>metadata\<close> and \<open>score\<close> are read with
  \<open>result[...]\<close> and always present in what the vector store and the BM25 search
  build; the other keys are added along the way and are optional. The field
  \<open>chunk_text\<close> stands for the key \<open>text\<close>.
\<close>

record result =
  chunk_text :: pystr
  metadata :: metadata
  score :: real
  search_type :: "pystr option"
  vector_score :: "real option"
  bm25_score :: "real option"
  vector_score_norm :: "real option"
  bm25_score_norm :: "real option"
  hybrid_score :: "real option"

section \<open>Python helpers\<close>

text \<open>\<open>xs[:n]\<close>: a negative bound counts from the end.\<close>

definition py_take :: "int \<Rightarrow> 'a list \<Rightarrow> 'a list" where
  "py_take n xs = (if 0 \<le> n then take (nat n) xs else take (nat (int (length xs) + n)) xs)"

text \<open>\<open>xs[:n]\<close> where the bound may be \<open>None\<close> (the whole list).\<close>

definition py_slice_to :: "int option \<Rightarrow> 'a list \<Rightarrow> 'a list" where
  "py_slice_to n xs = (case n of None \<Rightarrow> xs | Some k \<Rightarrow> py_take k xs)"

text \<open>\<open>d.get(key, default)\<close> for a string value.\<close>

definition get_or :: "pystr option \<Rightarrow> pystr \<Rightarrow> pystr" where
  "get_or v d = (case v of None \<Rightarrow> d | Some s \<Rightarrow> s)"

text \<open>\<open>f"{x}"\<close> for a value that is a string or \<open>None\<close>.\<close>

definition fmt :: "pystr option \<Rightarrow> pystr" where
  "fmt v = (case v of None \<Rightarrow> ascii ''None'' | Some s \<Rightarrow> s)"

text \<open>
  \<open>xs.sort(key=f, reverse=True)\<close> and \<open>sorted(xs, key=f, reverse=True)\<close>: descending
  and stable (elements with equal keys keep their relative order), which is the stable
  ascending sort on the negated key.
\<close>

definition sort_desc :: "('a \<Rightarrow> real) \<Rightarrow> 'a list \<Rightarrow> 'a list" where
  "sort_desc f xs = sort_key (\<lambda>x. - f x) xs"

text \<open>\<open>round(x, nd)\<close>: to the nearest multiple of \<open>10 ^ -nd\<close>, a tie to the even one.\<close>

definition round_half_even :: "real \<Rightarrow> int" where
  "round_half_even x =
     (let f = \<lfloor>x\<rfloor>; d = x - of_int f
      in if d < 1 / 2 then f else if 1 / 2 < d then f + 1
         else if even f then f else f + 1)"

definition py_round :: "real \<Rightarrow> nat \<Rightarrow> real" where
  "py_round x nd = of_int (round_half_even (x * 10 ^ nd)) / 10 ^ nd"

section \<open>Score fusion (hybrid\_search.py)\<close>

text \<open>The two score keys \<open>'vector_score'\<close> and \<open>'bm25_score'\<close> passed to \<open>_normalize_scores\<close>.\<close>

datatype score_key = VectorScore | Bm25Score

text \<open>\<open>r.get(score_key, 0)\<close>\<close>

fun get_score :: "score_key \<Rightarrow> result \<Rightarrow> real" where
  "get_score VectorScore r = (case vector_score r of None \<Rightarrow> 0 | Some s \<Rightarrow> s)"
| "get_score Bm25Score r = (case bm25_score r of None \<Rightarrow> 0 | Some s \<Rightarrow> s)"

text \<open>\<open>result[f'{score_key}_norm'] = v\<close>\<close>

fun set_norm :: "score_key \<Rightarrow> real \<Rightarrow> result \<Rightarrow> result" where
  "set_norm VectorScore v r = r\<lparr>vector_score_norm := Some v\<rparr>"
| "set_norm Bm25Score v r = r\<lparr>bm25_score_norm := Some v\<rparr>"

text \<open>The value stored under \<open>f'{score_key}_norm'\<close>, if any.\<close>

fun norm_field :: "score_key \<Rightarrow> result \<Rightarrow> real option" where
  "norm_field VectorScore r = vector_score_norm r"
| "norm_field Bm25Score r = bm25_score_norm r"

text \<open>\<open>result.get(f'{score_key}_norm', 0)\<close>\<close>

definition get_norm :: "score_key \<Rightarrow> result \<Rightarrow> real" where
  "get_norm key r = (case norm_field key r of None \<Rightarrow> 0 | Some v \<Rightarrow> v)"

definition normalize_scores :: "result list \<Rightarrow> score_key \<Rightarrow> result list" where
  "normalize_scores results key =
     (if results = [] then results
      else
        let scores = map (get_score key) results;
            max_score = (if scores \<noteq> [] then Max (set scores) else 1);
            min_score = (if scores \<noteq> [] then Min (set scores) else 0)
        in if max_score = min_score
           then map (set_norm key 1) results
           else map (\<lambda>r. set_norm key ((get_score key r - min_score) / (max_score - min_score)) r)
                  results)"

text \<open>\<open>_get_doc_id\<close>: the identity of a fragment.\<close>

definition get_doc_id :: "metadata \<Rightarrow> pystr" where
  "get_doc_id md =
     get_or (code_source md) (ascii ''unknown'') @ ascii ''_'' @
     get_or (article_number md) (ascii ''unknown'') @ ascii ''_'' @
     get_or (chunk_id md) (ascii ''0'')"

text \<open>
  \<open>merged_docs\<close> is a dictionary: an association list in insertion order, where
  \<open>merged_docs[k] = v\<close> is \<open>AList.update k v\<close> (an existing key keeps its place).
  First loop of \<open>_merge_results\<close>, one vector result:
\<close>

definition add_vector :: "(pystr \<times> result) list \<Rightarrow> result \<Rightarrow> (pystr \<times> result) list" where
  "add_vector merged_docs r =
     (let doc_id = get_doc_id (metadata r)
      in AList.update doc_id
           (r\<lparr>vector_score_norm := Some (get_norm VectorScore r), bm25_score_norm := Some 0\<rparr>)
           merged_docs)"

text \<open>Second loop, one BM25 result.\<close>

definition add_bm25 :: "(pystr \<times> result) list \<Rightarrow> result \<Rightarrow> (pystr \<times> result) list" where
  "add_bm25 merged_docs r =
     (let doc_id = get_doc_id (metadata r)
      in case map_of merged_docs doc_id of
           Some doc \<Rightarrow>
             AList.update doc_id
               (doc\<lparr>bm25_score_norm := Some (get_norm Bm25Score r),
                    search_type := Some (ascii ''hybrid'')\<rparr>)
               merged_docs
         | None \<Rightarrow>
             AList.update doc_id
               (r\<lparr>vector_score_norm := Some 0, bm25_score_norm := Some (get_norm Bm25Score r)\<rparr>)
               merged_docs)"

text \<open>
  Third loop: the fused score. \<open>doc['vector_score_norm']\<close> and \<open>doc['bm25_score_norm']\<close>
  raise \<open>KeyError\<close> on a missing key, which is the result \<open>None\<close>.
\<close>

definition final_score :: "result \<Rightarrow> result option" where
  "final_score doc =
     (case vector_score_norm doc of
        None \<Rightarrow> None
      | Some v \<Rightarrow>
          (case bm25_score_norm doc of
             None \<Rightarrow> None
           | Some b \<Rightarrow>
               (let final = 0.4 * v + 0.6 * b
                in Some (doc\<lparr>score := final, hybrid_score := Some final\<rparr>))))"

fun final_scores :: "result list \<Rightarrow> result list option" where
  "final_scores [] = Some []"
| "final_scores (doc # docs) =
     (case final_score doc of
        None \<Rightarrow> None
      | Some doc' \<Rightarrow> (case final_scores docs of None \<Rightarrow> None | Some docs' \<Rightarrow> Some (doc' # docs')))"

text \<open>
  \<open>_merge_results\<close>. The \<open>except\<close> branch returns \<open>vector_results[:limit]\<close>, whose
  dictionaries \<open>_normalize_scores\<close> has already updated in place.
\<close>

definition merge_results :: "result list \<Rightarrow> result list \<Rightarrow> int \<Rightarrow> result list" where
  "merge_results vector_results bm25_results limit =
     (let vector_normalized = normalize_scores vector_results VectorScore;
          bm25_normalized = normalize_scores bm25_results Bm25Score;
          merged_docs = foldl add_bm25 (foldl add_vector [] vector_normalized) bm25_normalized
      in case final_scores (map snd merged_docs) of
           None \<Rightarrow> py_take limit vector_normalized
         | Some final_results \<Rightarrow> py_take limit (sort_desc score final_results))"

section \<open>Article aggregation and answer assembly (search.py)\<close>

text \<open>The key \<open>f"{metadata.get('code_source')}_{metadata.get('article_number')}"\<close>.\<close>

definition article_key :: "metadata \<Rightarrow> pystr" where
  "article_key md = fmt (code_source md) @ ascii ''_'' @ fmt (article_number md)"

text \<open>First loop of \<open>_group_chunks_by_article\<close>: \<open>grouped\<close> is a dictionary in insertion order.\<close>

definition add_chunk :: "(pystr \<times> result list) list \<Rightarrow> result \<Rightarrow> (pystr \<times> result list) list" where
  "add_chunk grouped r =
     (let key = article_key (metadata r)
      in case map_of grouped key of
           None \<Rightarrow> AList.update key [r] grouped
         | Some chunks \<Rightarrow> AList.update key (chunks @ [r]) grouped)"

text \<open>
  The score of an article from its sorted chunks. \<open>chunks[0]\<close> raises \<open>IndexError\<close> on an
  empty list, which is the result \<open>None\<close>.
\<close>

fun article_score :: "result list \<Rightarrow> real option" where
  "article_score [] = None"
| "article_score (c # cs) =
     (let best_score = score c;
          avg_score = sum_list (map score (c # cs)) / real (length (c # cs))
      in Some (best_score * 0.7 + avg_score * 0.3))"

text \<open>
  Second loop: every group is sorted in place and scored. The entry of \<open>article_scores\<close>
  is kept beside the group, so that \<open>article_scores[k]\<close> and \<open>grouped[key]\<close> need no lookup.
\<close>

fun score_articles :: "(pystr \<times> result list) list \<Rightarrow> (pystr \<times> result list \<times> real) list option" where
  "score_articles [] = Some []"
| "score_articles ((key, chunks) # rest) =
     (let sorted_chunks = sort_desc score chunks
      in case article_score sorted_chunks of
           None \<Rightarrow> None
         | Some s \<Rightarrow>
             (case score_articles rest of
                None \<Rightarrow> None
              | Some rest' \<Rightarrow> Some ((key, sorted_chunks, s) # rest')))"

text \<open>\<open>_group_chunks_by_article\<close>: the returned dictionary, in its order.\<close>

definition group_chunks_by_article :: "result list \<Rightarrow> (pystr \<times> result list) list option" where
  "group_chunks_by_article results =
     (let grouped = foldl add_chunk [] results
      in case score_articles grouped of
           None \<Rightarrow> None
         | Some scored \<Rightarrow>
             Some (map (\<lambda>(key, chunks, s). (key, chunks))
                     (sort_desc (\<lambda>(key, chunks, s). s) scored)))"

text \<open>An entry of the list that \<open>_extract_sources\<close> returns.\<close>

record source =
  src_article_number :: pystr
  src_code_source :: pystr
  relevance_score :: real
  text_preview :: pystr
  src_search_type :: pystr

text \<open>The lookup table of display names, \<open>{...}.get(code_source, code_source)\<close>.\<close>

definition code_display :: "pystr \<Rightarrow> pystr" where
  "code_display c =
     (if c = ascii ''code_travail'' then ascii ''Code du Travail''
      else if c = ascii ''code_penal'' then ascii ''Code P'' @ [233] @ ascii ''nal''
      else if c = ascii ''code_commerce'' then ascii ''Code de Commerce''
      else if c = ascii ''code_route'' then ascii ''Code de la Route''
      else if c = ascii ''code_procedure_civile''
        then ascii ''Code de Proc'' @ [233] @ ascii ''dure Civile''
      else c)"

definition preview :: "pystr \<Rightarrow> pystr" where
  "preview t = (if length t > 150 then take 150 t @ ascii ''...'' else t)"

definition make_source :: "result \<Rightarrow> source" where
  "make_source r =
     (let md = metadata r;
          cs = get_or (code_source md) (ascii ''N/A'')
      in \<lparr>src_article_number = get_or (article_number md) (ascii ''N/A''),
          src_code_source = code_display cs,
          relevance_score = py_round (score r) 3,
          text_preview = preview (chunk_text r),
          src_search_type = get_or (search_type r) (ascii ''unknown'')\<rparr>)"

text \<open>The loop of \<open>_extract_sources\<close> with its two accumulators.\<close>

fun extract_sources_loop :: "result list \<Rightarrow> source list \<Rightarrow> pystr set \<Rightarrow> source list" where
  "extract_sources_loop [] sources seen_articles = sources"
| "extract_sources_loop (r # rs) sources seen_articles =
     (let key = article_key (metadata r)
      in if key \<in> seen_articles then extract_sources_loop rs sources seen_articles
         else extract_sources_loop rs (sources @ [make_source r]) (insert key seen_articles))"

definition extract_sources :: "result list \<Rightarrow> source list" where
  "extract_sources results = extract_sources_loop results [] {}"

definition hybrid_bonus :: "result list \<Rightarrow> real" where
  "hybrid_bonus results =
     (if list_ex (\<lambda>r. search_type r = Some (ascii ''hybrid'')) results then 1.1 else 1)"

definition calculate_confidence :: "result list \<Rightarrow> real" where
  "calculate_confidence results =
     (if results = [] then 0
      else
        let top_results = py_take 5 results;
            avg_score = sum_list (map score top_results) / real (length top_results);
            source_factor = min (real (length results) / 3) 1;
            confidence = avg_score * source_factor * hybrid_bonus results
        in py_round (min confidence 1) 3)"

section \<open>The request pipeline (search.py)\<close>

text \<open>
  The collaborators of \<open>search_and_answer\<close>, whose code is outside the repository or
  outside the claims, are parameters:
  \<^item> \<open>reformulate\<close> is \<open>_reformulate_to_legal_terms\<close>, which catches every exception of the
    generative model and then returns the question, so it always returns a string;
  \<^item> \<open>encode\<close> is \<open>embedding_model.encode\<close>, which re-raises its errors (\<open>None\<close>);
  \<^item> \<open>vs_search\<close> is \<open>vector_store.search\<close>, which returns \<open>[]\<close> on any error;
  \<^item> \<open>generate\<close> is \<open>llm.generate_optimized_response\<close>, which returns an apology on any
    error of the model.
\<close>

record 'v collaborators =
  reformulate :: "pystr \<Rightarrow> pystr"
  encode :: "pystr \<Rightarrow> 'v option"
  vs_search :: "'v \<Rightarrow> int \<Rightarrow> result list"
  generate :: "pystr \<Rightarrow> result list \<Rightarrow> pystr"

text \<open>The dictionary that \<open>search_and_answer\<close> returns; \<open>search_types\<close> is an optional key.\<close>

record response =
  answer :: pystr
  sources :: "source list"
  confidence :: real
  search_results_count :: nat
  search_types :: "pystr list option"

definition no_information_response :: response where
  "no_information_response =
     \<lparr>answer = ascii ''Aucune information trouv'' @ [233] @ ascii ''e dans les textes juridiques.'',
      sources = [], confidence = 0, search_results_count = 0, search_types = None\<rparr>"

text \<open>The response of the \<open>except\<close> branch.\<close>

definition error_response :: response where
  "error_response =
     \<lparr>answer = ascii ''Une erreur s'est produite lors de la recherche.'',
      sources = [], confidence = 0, search_results_count = 0, search_types = None\<rparr>"

text \<open>Steps 1 and 2: the tagged results of the vector store; \<open>None\<close> when \<open>encode\<close> raises.\<close>

definition retrieve :: "'v collaborators \<Rightarrow> pystr \<Rightarrow> result list option" where
  "retrieve env question =
     (let enriched_question = reformulate env question
      in case encode env enriched_question of
           None \<Rightarrow> None
         | Some question_embedding \<Rightarrow>
             Some (map (\<lambda>r. r\<lparr>search_type := Some (ascii ''vector'')\<rparr>)
                     (vs_search env question_embedding 20)))"

text \<open>Step 3: the chunks of the best articles, in order; \<open>None\<close> when the grouping raises.\<close>

definition flatten_best :: "result list \<Rightarrow> int option \<Rightarrow> result list option" where
  "flatten_best search_results max_results =
     (case group_chunks_by_article search_results of
        None \<Rightarrow> None
      | Some grouped_results \<Rightarrow>
          (let best_articles = py_slice_to max_results (map snd grouped_results)
           in Some (concat best_articles)))"

definition search_and_answer :: "'v collaborators \<Rightarrow> pystr \<Rightarrow> int option \<Rightarrow> response" where
  "search_and_answer env question max_results =
     (case retrieve env question of
        None \<Rightarrow> error_response
      | Some search_results \<Rightarrow>
          if search_results = [] then no_information_response
          else
            (case flatten_best search_results max_results of
               None \<Rightarrow> error_response
             | Some flattened_results \<Rightarrow>
                 \<lparr>answer = generate env question (py_take 10 flattened_results),
                  sources = extract_sources (py_slice_to max_results flattened_results),
                  confidence = calculate_confidence flattened_results,
                  search_results_count = length search_results,
                  search_types =
                    Some (map (\<lambda>r. get_or (search_type r) (ascii ''unknown''))
                            (py_take 5 flattened_results))\<rparr>))"

section \<open>Rebuilding the keyword index (hybrid\_search.py)\<close>

text \<open>
  The fields of \<open>HybridSearchEngine\<close> that hold the keyword index, and the cache file
  \<open>bm25_index.pkl\<close> (\<open>None\<close> when it does not exist). \<open>'i\<close> is the type of a
  \<open>BM25Okapi\<close> object.
\<close>

record 'i engine =
  bm25_index :: "'i option"
  documents :: "pystr list"
  metadata_list :: "metadata list"
  cache_file :: "('i \<times> pystr list \<times> metadata list) option"

text \<open>
  What a rebuild reads from outside: the results of \<open>vector_store.search\<close> over the
  whole collection, \<open>_tokenize_text\<close> (it catches its errors), the constructor
  \<open>BM25Okapi\<close> of the library \<open>rank_bm25\<close> (\<open>None\<close> when it raises), and whether writing and
  removing the cache file succeed.
\<close>

record 'i index_env =
  all_results :: "result list"
  tokenize_text :: "pystr \<Rightarrow> pystr list"
  BM25Okapi :: "pystr list list \<Rightarrow> 'i option"
  write_ok :: bool
  remove_ok :: bool

text \<open>
  The index state that a query reads: \<open>_bm25_search\<close> scores with \<open>bm25_index\<close> and
  fetches \<open>documents[idx]\<close> and \<open>metadata_list[idx]\<close>.
\<close>

definition active :: "'i engine \<Rightarrow> 'i option \<times> pystr list \<times> metadata list" where
  "active s = (bm25_index s, documents s, metadata_list s)"

text \<open>
  The functions below return the states of the engine after each assignment to one of
  its fields, in order. The loop of \<open>_create_bm25_index\<close>:
\<close>

fun append_documents :: "'i engine \<Rightarrow> result list \<Rightarrow> 'i engine list" where
  "append_documents s [] = []"
| "append_documents s (r # rs) =
     (let s1 = s\<lparr>documents := documents s @ [chunk_text r]\<rparr>;
          s2 = s1\<lparr>metadata_list := metadata_list s1 @ [metadata r]\<rparr>
      in s1 # s2 # append_documents s2 rs)"

definition create_bm25_index_steps :: "'i index_env \<Rightarrow> 'i engine \<Rightarrow> 'i engine list" where
  "create_bm25_index_steps env s =
     (let s1 = s\<lparr>documents := []\<rparr>;
          s2 = s1\<lparr>metadata_list := []\<rparr>;
          loop = append_documents s2 (all_results env);
          s3 = last (s2 # loop);
          tokenized_docs = map (\<lambda>r. tokenize_text env (chunk_text r)) (all_results env)
      in [s1, s2] @ loop @
         (if tokenized_docs \<noteq> [] then
            (case BM25Okapi env tokenized_docs of
               None \<Rightarrow> []
             | Some index \<Rightarrow>
                 (let s4 = s3\<lparr>bm25_index := Some index\<rparr>
                  in s4 #
                     (if write_ok env
                      then [s4\<lparr>cache_file := Some (index, documents s4, metadata_list s4)\<rparr>]
                      else [])))
          else []))"

text \<open>
  \<open>rebuild_bm25_index\<close>: the cache file is removed first; when \<open>os.remove\<close> raises, the
  \<open>except\<close> branch logs the error and nothing else happens.
\<close>

definition rebuild_bm25_index_steps :: "'i index_env \<Rightarrow> 'i engine \<Rightarrow> 'i engine list" where
  "rebuild_bm25_index_steps env s =
     (if cache_file s \<noteq> None then
        (if remove_ok env
         then (let s0 = s\<lparr>cache_file := None\<rparr> in s0 # create_bm25_index_steps env s0)
         else [])
      else create_bm25_index_steps env s)"

text \<open>The state of the engine when \<open>rebuild_bm25_index\<close> returns.\<close>

definition rebuild_bm25_index :: "'i index_env \<Rightarrow> 'i engine \<Rightarrow> 'i engine" where
  "rebuild_bm25_index env s = last (s # rebuild_bm25_index_steps env s)"

section \<open>Vocabulary of the statements\<close>

text \<open>The article key of a result.\<close>

abbreviation akey :: "result \<Rightarrow> pystr" where
  "akey r \<equiv> article_key (metadata r)"

text \<open>The distinct elements of a list, in the order of their first occurrence.\<close>

definition first_seen :: "'a list \<Rightarrow> 'a list" where
  "first_seen xs = rev (remdups (rev xs))"

text \<open>
  The composite score of a group in the words of the specification: \<open>0.7\<close> times the best
  score of the group plus \<open>0.3\<close> times the mean of its scores.
\<close>

definition composite_score :: "result list \<Rightarrow> real" where
  "composite_score chunks =
     0.7 * Max (score ` set chunks) + 0.3 * (sum_list (map score chunks) / real (length chunks))"

text \<open>
  The groups in the order in which their first chunk arrives, each with its chunks in
  descending order of score.
\<close>

definition groups_in_arrival_order :: "result list \<Rightarrow> (pystr \<times> result list) list" where
  "groups_in_arrival_order results =
     map (\<lambda>k. (k, sort_desc score (filter (\<lambda>r. akey r = k) results)))
       (first_seen (map akey results))"

text \<open>The first result of every article, in the order of the list.\<close>

fun first_per_article :: "result list \<Rightarrow> result list" where
  "first_per_article [] = []"
| "first_per_article (r # rs) = r # first_per_article (filter (\<lambda>x. akey x \<noteq> akey r) rs)"

text \<open>The identity of a fragment.\<close>

abbreviation doc_id :: "result \<Rightarrow> pystr" where
  "doc_id r \<equiv> get_doc_id (metadata r)"

text \<open>
  The normalised score that a hit list gives to the fragment \<open>d\<close>: that of its entry for
  \<open>d\<close> (the last one, should the list repeat \<open>d\<close>), and \<open>0\<close> when the list has none.
\<close>

definition last_norm :: "score_key \<Rightarrow> result list \<Rightarrow> pystr \<Rightarrow> real" where
  "last_norm key rs d =
     (case find (\<lambda>r. doc_id r = d) (rev rs) of None \<Rightarrow> 0 | Some r \<Rightarrow> get_norm key r)"

text \<open>A merged document with its fused score.\<close>

definition fuse :: "result \<Rightarrow> result" where
  "fuse doc =
     (let final = 0.4 * get_norm VectorScore doc + 0.6 * get_norm Bm25Score doc
      in doc\<lparr>score := final, hybrid_score := Some final\<rparr>)"

text \<open>
  The state of \<open>merged_docs\<close> after the vector results \<open>vn\<close> and the BM25 results \<open>bn\<close>:
  one entry per fragment, under its identity, with both normalised scores.
\<close>

definition merged_ok :: "result list \<Rightarrow> result list \<Rightarrow> (pystr \<times> result) list \<Rightarrow> bool" where
  "merged_ok vn bn md \<longleftrightarrow>
     distinct (map fst md) \<and>
     fst ` set md = doc_id ` set vn \<union> doc_id ` set bn \<and>
     (\<forall>d doc. map_of md d = Some doc \<longrightarrow>
        doc_id doc = d \<and>
        vector_score_norm doc = Some (last_norm VectorScore vn d) \<and>
        bm25_score_norm doc = Some (last_norm Bm25Score bn d))"

section \<open>Example inputs\<close>

text \<open>A chunk as the vector store returns it and \<open>_vector_search\<close> tags it.\<close>

definition chunk :: "string \<Rightarrow> string \<Rightarrow> string \<Rightarrow> real \<Rightarrow> result" where
  "chunk code article cid s =
     \<lparr>chunk_text = ascii ''texte'',
      metadata = \<lparr>code_source = Some (ascii code), article_number = Some (ascii article),
                  chunk_id = Some (ascii cid)\<rparr>,
      score = s, search_type = Some (ascii ''vector''),
      vector_score = Some s, bm25_score = None,
      vector_score_norm = None, bm25_score_norm = None, hybrid_score = None\<rparr>"

text \<open>
  The worked example of the specification: article 41 of \<open>code_travail\<close> with the scores
  \<open>0.9\<close>, \<open>0.6\<close>, \<open>0.3\<close> and article 12 of \<open>code_penal\<close> with \<open>0.95\<close>, \<open>0.2\<close>, interleaved.
\<close>

definition worked_example :: "result list" where
  "worked_example =
     [chunk ''code_travail'' ''41'' ''1'' (6 / 10), chunk ''code_penal'' ''12'' ''1'' (2 / 10),
      chunk ''code_travail'' ''41'' ''0'' (9 / 10), chunk ''code_penal'' ''12'' ''0'' (95 / 100),
      chunk ''code_travail'' ''41'' ''2'' (3 / 10)]"

text \<open>
  Two sets of collaborators: a vector store that finds nothing, and one that returns the
  worked example with every chunk already tagged \<open>hybrid\<close>.
\<close>

definition empty_store :: "unit collaborators" where
  "empty_store =
     \<lparr>reformulate = (\<lambda>q. q), encode = (\<lambda>q. Some ()), vs_search = (\<lambda>v n. []),
      generate = (\<lambda>q context. ascii ''Selon l'article'')\<rparr>"

definition example_store :: "unit collaborators" where
  "example_store =
     \<lparr>reformulate = (\<lambda>q. q), encode = (\<lambda>q. Some ()),
      vs_search = (\<lambda>v n. map (\<lambda>r. r\<lparr>search_type := Some (ascii ''hybrid'')\<rparr>) worked_example),
      generate = (\<lambda>q context. ascii ''Selon l'article'')\<rparr>"

text \<open>A chunk whose text has 151 characters.\<close>

definition long_chunk :: result where
  "long_chunk = (chunk ''code_penal'' ''12'' ''0'' (9 / 10))\<lparr>chunk_text := replicate 151 97\<rparr>"

text \<open>
  An engine that holds an index (number 0) over one old document, and a rebuild over a
  collection of one new document whose index is number 1.
\<close>

definition old_engine :: "nat engine" where
  "old_engine =
     \<lparr>bm25_index = Some 0, documents = [ascii ''ancien''],
      metadata_list = [metadata (chunk ''code_route'' ''7'' ''0'' 0)],
      cache_file = Some (0, [ascii ''ancien''], [metadata (chunk ''code_route'' ''7'' ''0'' 0)])\<rparr>"

definition one_document :: "nat index_env" where
  "one_document =
     \<lparr>all_results = [chunk ''code_penal'' ''12'' ''0'' 0], tokenize_text = (\<lambda>t. [t]),
      BM25Okapi = (\<lambda>docs. Some 1), write_ok = True, remove_ok = True\<rparr>"

text \<open>A result as \<open>_vector_search\<close> returns it, and one as \<open>_bm25_search\<close> builds it.\<close>

definition vector_hit :: "string \<Rightarrow> string \<Rightarrow> string \<Rightarrow> real \<Rightarrow> result" where
  "vector_hit code article cid s = chunk code article cid s"

definition bm25_hit :: "string \<Rightarrow> string \<Rightarrow> string \<Rightarrow> real \<Rightarrow> result" where
  "bm25_hit code article cid s =
     (chunk code article cid s)\<lparr>search_type := Some (ascii ''bm25''), vector_score := None,
                                bm25_score := Some s\<rparr>"

text \<open>
  Two hit lists: three vector results, and two BM25 results of which one is also a vector
  result.
\<close>

definition vector_hits :: "result list" where
  "vector_hits =
     [vector_hit ''code_travail'' ''41'' ''0'' (9 / 10), vector_hit ''code_penal'' ''12'' ''0'' (5 / 10),
      vector_hit ''code_route'' ''7'' ''0'' (1 / 10)]"

definition bm25_hits :: "result list" where
  "bm25_hits = [bm25_hit ''code_penal'' ''12'' ''0'' 2, bm25_hit ''code_commerce'' ''3'' ''0'' 4]"

section \<open>Min-max normalisation\<close>

lemma norm_field_set_norm [simp]: "norm_field key (set_norm key v r) = Some v"
  by (cases key) simp_all

lemma get_norm_set_norm [simp]: "get_norm key (set_norm key v r) = v"
  by (simp add: get_norm_def)

lemma metadata_set_norm [simp]: "metadata (set_norm key v r) = metadata r"
  by (cases key) simp_all

lemma Max_eq_Min_iff:
  fixes xs :: "real list"
  assumes "xs \<noteq> []"
  shows "Max (set xs) = Min (set xs) \<longleftrightarrow> (\<forall>s \<in> set xs. \<forall>t \<in> set xs. s = t)"
proof
  assume eq: "Max (set xs) = Min (set xs)"
  show "\<forall>s \<in> set xs. \<forall>t \<in> set xs. s = t"
  proof (intro ballI)
    fix s t assume "s \<in> set xs" "t \<in> set xs"
    then have "Min (set xs) \<le> s" "s \<le> Max (set xs)" "Min (set xs) \<le> t" "t \<le> Max (set xs)"
      by simp_all
    with eq show "s = t" by linarith
  qed
next
  assume all: "\<forall>s \<in> set xs. \<forall>t \<in> set xs. s = t"
  from assms have "Max (set xs) \<in> set xs" "Min (set xs) \<in> set xs"
    by simp_all
  with all show "Max (set xs) = Min (set xs)" by blast
qed

text \<open>
  C2. For a non-empty list, \<open>_normalize_scores\<close> stores a normalised score in every
  result; the normalised scores lie in \<open>[0, 1]\<close>; when all the raw scores are equal every
  normalised score is \<open>1\<close>, and otherwise the largest normalised score is \<open>1\<close> and the
  smallest is \<open>0\<close>.
\<close>

theorem normalize_scores_min_max:
  assumes "results \<noteq> []"
  shows "let out = normalize_scores results key;
             ns = map (get_norm key) out;
             raw = map (get_score key) results
         in length out = length results \<and>
            (\<forall>r \<in> set out. norm_field key r \<noteq> None) \<and>
            (\<forall>n \<in> set ns. 0 \<le> n \<and> n \<le> 1) \<and>
            (if \<forall>s \<in> set raw. \<forall>t \<in> set raw. s = t
             then \<forall>n \<in> set ns. n = 1
             else Max (set ns) = 1 \<and> Min (set ns) = 0)"
proof -
  define raw where "raw = map (get_score key) results"
  define M where "M = Max (set raw)"
  define m where "m = Min (set raw)"
  have raw_ne: "raw \<noteq> []" using assms by (simp add: raw_def)
  have M_in: "M \<in> set raw" and m_in: "m \<in> set raw"
    using raw_ne by (simp_all add: M_def m_def)
  have bounds: "m \<le> s \<and> s \<le> M" if "s \<in> set raw" for s
    using that by (simp add: M_def m_def)
  have eq_iff: "M = m \<longleftrightarrow> (\<forall>s \<in> set raw. \<forall>t \<in> set raw. s = t)"
    unfolding M_def m_def by (rule Max_eq_Min_iff [OF raw_ne])
  show ?thesis
  proof (cases "M = m")
    case True
    then have out: "normalize_scores results key = map (set_norm key 1) results"
      using assms by (simp add: normalize_scores_def raw_def M_def m_def)
    show ?thesis
      using True eq_iff by (simp add: out raw_def [symmetric] Let_def comp_def)
  next
    case False
    then have lt: "m < M" using bounds [OF M_in] by simp
    have out: "normalize_scores results key =
        map (\<lambda>r. set_norm key ((get_score key r - m) / (M - m)) r) results"
      using assms False by (simp add: normalize_scores_def raw_def M_def m_def Let_def)
    have ns: "map (get_norm key) (normalize_scores results key) =
        map (\<lambda>s. (s - m) / (M - m)) raw"
      by (simp add: out raw_def comp_def)
    have rng: "0 \<le> (s - m) / (M - m) \<and> (s - m) / (M - m) \<le> 1" if "s \<in> set raw" for s
      using bounds [OF that] lt by (simp add: divide_simps)
    have "Max (set (map (\<lambda>s. (s - m) / (M - m)) raw)) = 1"
    proof (rule Max_eqI)
      show "1 \<in> set (map (\<lambda>s. (s - m) / (M - m)) raw)"
        using M_in lt by (force simp: image_iff)
    qed (use rng in auto)
    moreover have "Min (set (map (\<lambda>s. (s - m) / (M - m)) raw)) = 0"
    proof (rule Min_eqI)
      show "0 \<in> set (map (\<lambda>s. (s - m) / (M - m)) raw)"
        using m_in by (force simp: image_iff)
    qed (use rng in auto)
    moreover have "\<forall>n \<in> set (map (\<lambda>s. (s - m) / (M - m)) raw). 0 \<le> n \<and> n \<le> 1"
      using rng by auto
    moreover have "\<forall>r \<in> set (normalize_scores results key). norm_field key r \<noteq> None"
      by (auto simp: out)
    moreover have "length (normalize_scores results key) = length results"
      by (simp add: out)
    moreover have "\<not> (\<forall>s \<in> set raw. \<forall>t \<in> set raw. s = t)"
      using False eq_iff by simp
    ultimately show ?thesis
      unfolding Let_def ns raw_def [symmetric] by (simp only: if_False simp_thms)
  qed
qed

theorem normalize_scores_min_max_witness:
  "[chunk ''code_travail'' ''41'' ''0'' 1, chunk ''code_travail'' ''41'' ''1'' 3,
    chunk ''code_penal'' ''12'' ''0'' 2] \<noteq> [] \<and>
   map (get_norm VectorScore)
     (normalize_scores
        [chunk ''code_travail'' ''41'' ''0'' 1, chunk ''code_travail'' ''41'' ''1'' 3,
         chunk ''code_penal'' ''12'' ''0'' 2] VectorScore) = [0, 1, 1 / 2] \<and>
   map (get_norm VectorScore)
     (normalize_scores
        [chunk ''code_travail'' ''41'' ''0'' 2, chunk ''code_penal'' ''12'' ''0'' 2]
        VectorScore) = [1, 1]"
  using normalize_scores_min_max
    [of "[chunk ''code_travail'' ''41'' ''0'' 1, chunk ''code_travail'' ''41'' ''1'' 3,
          chunk ''code_penal'' ''12'' ''0'' 2]" VectorScore]
  by (simp add: normalize_scores_def chunk_def get_norm_def)

section \<open>Rounding\<close>

lemma round_half_even_bounds: "\<lfloor>x\<rfloor> \<le> round_half_even x \<and> round_half_even x \<le> \<lceil>x\<rceil>"
proof -
  have "\<lfloor>x\<rfloor> + 1 \<le> \<lceil>x\<rceil>" if "x - of_int \<lfloor>x\<rfloor> \<ge> 1 / 2"
    using that by linarith
  moreover have "\<lfloor>x\<rfloor> \<le> \<lceil>x\<rceil>" by linarith
  ultimately show ?thesis
    by (auto simp: round_half_even_def Let_def)
qed

lemma py_round_le_1: "x \<le> 1 \<Longrightarrow> py_round x 3 \<le> 1"
proof -
  assume "x \<le> 1"
  then have "\<lceil>x * 10 ^ 3\<rceil> \<le> 1000" by (simp add: ceiling_le_iff)
  with round_half_even_bounds [of "x * 10 ^ 3"] have "round_half_even (x * 10 ^ 3) \<le> 1000"
    by linarith
  then have "(of_int (round_half_even (x * 10 ^ 3)) :: real) \<le> 1000" by linarith
  then show ?thesis by (simp add: py_round_def)
qed

lemma py_round_nonneg: "0 \<le> x \<Longrightarrow> 0 \<le> py_round x 3"
proof -
  assume "0 \<le> x"
  then have "0 \<le> \<lfloor>x * 10 ^ 3\<rfloor>" by simp
  with round_half_even_bounds [of "x * 10 ^ 3"] have "0 \<le> round_half_even (x * 10 ^ 3)"
    by linarith
  then show ?thesis by (simp add: py_round_def)
qed

section \<open>Confidence\<close>

text \<open>
  C4, as stated, fails: \<open>_calculate_confidence\<close> limits the product from above only
  (\<open>min(confidence, 1.0)\<close>), so three chunks of score \<open>-0.5\<close> (a cosine similarity may be
  negative) give the confidence \<open>-0.5\<close>, which a clamp to \<open>[0, 1]\<close> would turn into \<open>0\<close>.
\<close>

theorem calculate_confidence_not_clamped_below:
  "calculate_confidence
     [chunk ''code_penal'' ''12'' ''0'' (- 1 / 2), chunk ''code_penal'' ''12'' ''1'' (- 1 / 2),
      chunk ''code_penal'' ''12'' ''2'' (- 1 / 2)] = - 1 / 2 \<and>
   \<not> 0 \<le> calculate_confidence
     [chunk ''code_penal'' ''12'' ''0'' (- 1 / 2), chunk ''code_penal'' ''12'' ''1'' (- 1 / 2),
      chunk ''code_penal'' ''12'' ''2'' (- 1 / 2)]"
  by (simp add: calculate_confidence_def hybrid_bonus_def py_take_def chunk_def ascii_def
        py_round_def round_half_even_def Let_def)

text \<open>
  C4, amended. For a non-empty list the confidence is the average score of the first five
  chunks, times \<open>min (count / 3) 1\<close>, times \<open>1.1\<close> if some chunk is tagged \<open>hybrid\<close> and \<open>1\<close>
  otherwise, limited to at most \<open>1\<close> and rounded to three decimals. It never exceeds \<open>1\<close>,
  and it is at least \<open>0\<close> when the scores of the first five chunks are not negative.
\<close>

theorem calculate_confidence_formula:
  assumes "results \<noteq> []"
  shows "calculate_confidence results =
           py_round (min (sum_list (map score (take 5 results)) / real (length (take 5 results))
                          * min (real (length results) / 3) 1
                          * (if \<exists>r \<in> set results. search_type r = Some (ascii ''hybrid'')
                             then 1.1 else 1)) 1) 3
         \<and> calculate_confidence results \<le> 1
         \<and> ((\<forall>r \<in> set (take 5 results). 0 \<le> score r) \<longrightarrow> 0 \<le> calculate_confidence results)"
proof -
  let ?avg = "sum_list (map score (take 5 results)) / real (length (take 5 results))"
  let ?factor = "min (real (length results) / 3) 1"
  let ?bonus = "if \<exists>r \<in> set results. search_type r = Some (ascii ''hybrid'') then 1.1 else (1::real)"
  have eq: "calculate_confidence results = py_round (min (?avg * ?factor * ?bonus) 1) 3"
    using assms
    by (simp add: calculate_confidence_def hybrid_bonus_def py_take_def list_ex_iff Let_def)
  have le: "py_round (min (?avg * ?factor * ?bonus) 1) 3 \<le> 1"
    by (rule py_round_le_1) simp
  have nonneg: "0 \<le> py_round (min (?avg * ?factor * ?bonus) 1) 3"
    if "\<forall>r \<in> set (take 5 results). 0 \<le> score r"
  proof (rule py_round_nonneg)
    have "0 \<le> sum_list (map score (take 5 results))"
      using that by (intro sum_list_nonneg) auto
    then have "0 \<le> ?avg" by simp
    moreover have "0 \<le> ?factor" by simp
    moreover have "0 \<le> ?bonus" by simp
    ultimately have "0 \<le> ?avg * ?factor * ?bonus" by (intro mult_nonneg_nonneg)
    then show "0 \<le> min (?avg * ?factor * ?bonus) 1" by simp
  qed
  show ?thesis using eq le nonneg by simp
qed

theorem calculate_confidence_formula_witness:
  "[chunk ''code_penal'' ''12'' ''0'' (95 / 100), chunk ''code_penal'' ''12'' ''1'' (2 / 10)] \<noteq> [] \<and>
   0 \<le> score (chunk ''code_penal'' ''12'' ''0'' (95 / 100)) \<and>
   0 \<le> score (chunk ''code_penal'' ''12'' ''1'' (2 / 10)) \<and>
   calculate_confidence
     [chunk ''code_penal'' ''12'' ''0'' (95 / 100), chunk ''code_penal'' ''12'' ''1'' (2 / 10)]
     = 383 / 1000 \<and>
   0 \<le> calculate_confidence
     [chunk ''code_penal'' ''12'' ''0'' (95 / 100), chunk ''code_penal'' ''12'' ''1'' (2 / 10)]"
  using calculate_confidence_formula
    [of "[chunk ''code_penal'' ''12'' ''0'' (95 / 100), chunk ''code_penal'' ''12'' ''1'' (2 / 10)]"]
  by (simp add: calculate_confidence_def hybrid_bonus_def py_take_def chunk_def ascii_def
        py_round_def round_half_even_def Let_def)

section \<open>Grouping by article\<close>

lemma first_seen_snoc:
  "first_seen (xs @ [x]) = (if x \<in> set xs then first_seen xs else first_seen xs @ [x])"
  by (simp add: first_seen_def)

lemma set_first_seen [simp]: "set (first_seen xs) = set xs"
  by (simp add: first_seen_def)

lemma distinct_first_seen [simp]: "distinct (first_seen xs)"
  by (simp add: first_seen_def)

lemma first_seen_Nil [simp]: "first_seen [] = []"
  by (simp add: first_seen_def)

lemma update_fresh: "k \<notin> fst ` set al \<Longrightarrow> AList.update k v al = al @ [(k, v)]"
  by (induction al) auto

lemma update_tabulated:
  "distinct ks \<Longrightarrow> k \<in> set ks \<Longrightarrow>
   AList.update k v (map (\<lambda>x. (x, f x)) ks) = map (\<lambda>x. (x, if x = k then v else f x)) ks"
proof (induction ks)
  case Nil
  then show ?case by simp
next
  case (Cons a ks)
  show ?case
  proof (cases "a = k")
    case True
    with Cons.prems have "k \<notin> set ks" by simp
    then have "map (\<lambda>x. (x, f x)) ks = map (\<lambda>x. (x, if x = k then v else f x)) ks"
      by (intro map_cong) auto
    with True show ?thesis by simp
  next
    case False
    with Cons show ?thesis by simp
  qed
qed

lemma map_of_tabulated:
  "map_of (map (\<lambda>x. (x, f x)) ks) k = (if k \<in> set ks then Some (f k) else None)"
  by (induction ks) auto

lemma grouped_eq:
  "foldl add_chunk [] results =
     map (\<lambda>k. (k, filter (\<lambda>r. akey r = k) results)) (first_seen (map akey results))"
proof (induction results rule: rev_induct)
  case Nil
  then show ?case by simp
next
  case (snoc r rs)
  let ?ks = "first_seen (map akey rs)"
  let ?f = "\<lambda>k. filter (\<lambda>x. akey x = k) rs"
  let ?g = "\<lambda>k. filter (\<lambda>x. akey x = k) (rs @ [r])"
  have start: "foldl add_chunk [] (rs @ [r]) = add_chunk (map (\<lambda>k. (k, ?f k)) ?ks) r"
    by (simp add: snoc.IH)
  show ?case
  proof (cases "akey r \<in> set (map akey rs)")
    case True
    then have mem: "akey r \<in> set ?ks" by simp
    have "add_chunk (map (\<lambda>k. (k, ?f k)) ?ks) r =
        map (\<lambda>k. (k, if k = akey r then ?f (akey r) @ [r] else ?f k)) ?ks"
      using mem by (simp add: add_chunk_def Let_def map_of_tabulated update_tabulated)
    also have "\<dots> = map (\<lambda>k. (k, ?g k)) ?ks"
      by (rule map_cong) auto
    also have "\<dots> = map (\<lambda>k. (k, ?g k)) (first_seen (map akey (rs @ [r])))"
      using True by (simp add: first_seen_snoc)
    finally show ?thesis unfolding start .
  next
    case False
    then have nmem: "akey r \<notin> set ?ks" by simp
    have none: "?f (akey r) = []" using False by (force simp: filter_empty_conv image_iff)
    have same: "map (\<lambda>k. (k, ?f k)) ?ks = map (\<lambda>k. (k, ?g k)) ?ks"
      using nmem by (intro map_cong) auto
    have "add_chunk (map (\<lambda>k. (k, ?f k)) ?ks) r = map (\<lambda>k. (k, ?f k)) ?ks @ [(akey r, [r])]"
      using nmem by (simp add: add_chunk_def Let_def map_of_tabulated update_fresh image_image)
    also have "\<dots> = map (\<lambda>k. (k, ?g k)) ?ks @ [(akey r, ?g (akey r))]"
      unfolding same using none by simp
    also have "\<dots> = map (\<lambda>k. (k, ?g k)) (first_seen (map akey (rs @ [r])))"
      using False by (simp add: first_seen_snoc)
    finally show ?thesis unfolding start .
  qed
qed

lemma sort_desc_set [simp]: "set (sort_desc f xs) = set xs"
  by (simp add: sort_desc_def)

lemma sort_desc_length [simp]: "length (sort_desc f xs) = length xs"
  by (simp add: sort_desc_def)

lemma sort_desc_Nil_iff [simp]: "sort_desc f xs = [] \<longleftrightarrow> xs = []"
  by (metis length_0_conv sort_desc_length)

lemma sort_desc_sorted: "sorted_wrt (\<lambda>a b. f b \<le> f a) (sort_desc f xs)"
proof -
  have "sorted (map (\<lambda>x. - f x) (sort_key (\<lambda>x. - f x) xs))" by (rule sorted_sort_key)
  then show ?thesis by (simp add: sort_desc_def sorted_map)
qed

lemma sort_desc_stable:
  "filter (\<lambda>y. f y = c) (sort_desc f xs) = filter (\<lambda>y. f y = c) xs"
  using sort_key_stable [of "\<lambda>x. - f x" "- c" xs] by (simp add: sort_desc_def)

lemma article_score_sorted:
  assumes "sorted_wrt (\<lambda>a b. score b \<le> score a) chunks" and "chunks \<noteq> []"
  shows "article_score chunks = Some (composite_score chunks)"
proof -
  from assms(2) obtain c cs where chunks: "chunks = c # cs" by (cases chunks) auto
  have "Max (score ` set (c # cs)) = score c"
    using assms(1) unfolding chunks by (intro Max_eqI) auto
  then show ?thesis by (simp add: chunks composite_score_def algebra_simps)
qed

lemma score_articles_eq:
  assumes "\<forall>(k, chunks) \<in> set grouped. chunks \<noteq> []"
  shows "score_articles grouped =
     Some (map (\<lambda>(k, chunks). (k, sort_desc score chunks, composite_score (sort_desc score chunks)))
             grouped)"
  using assms
proof (induction grouped)
  case Nil
  then show ?case by simp
next
  case (Cons g grouped)
  obtain k chunks where g: "g = (k, chunks)" by (cases g)
  with Cons.prems have ne: "chunks \<noteq> []" by simp
  have "article_score (sort_desc score chunks) = Some (composite_score (sort_desc score chunks))"
    using ne by (intro article_score_sorted sort_desc_sorted) simp
  moreover have "\<forall>(k, chunks) \<in> set grouped. chunks \<noteq> []"
    using Cons.prems by simp
  ultimately show ?case using Cons.IH g by (simp add: Let_def)
qed

lemma group_chunks_eq:
  "group_chunks_by_article results =
     Some (map (\<lambda>(k, chunks, s). (k, chunks))
        (sort_desc (\<lambda>(k, chunks, s). s)
           (map (\<lambda>(k, chunks). (k, chunks, composite_score chunks))
              (groups_in_arrival_order results))))"
proof -
  have ne: "\<forall>(k, chunks) \<in> set (foldl add_chunk [] results). chunks \<noteq> []"
    by (auto simp: grouped_eq filter_empty_conv)
  have "map (\<lambda>(k, chunks). (k, sort_desc score chunks, composite_score (sort_desc score chunks)))
          (foldl add_chunk [] results)
        = map (\<lambda>(k, chunks). (k, chunks, composite_score chunks)) (groups_in_arrival_order results)"
    by (simp add: grouped_eq groups_in_arrival_order_def comp_def)
  then show ?thesis
    by (simp add: group_chunks_by_article_def score_articles_eq [OF ne])
qed

lemma groups_in_arrival_order_keys:
  "map fst (groups_in_arrival_order results) = first_seen (map akey results)"
  by (simp add: groups_in_arrival_order_def comp_def)

lemma groups_in_arrival_order_member:
  "(k, chunks) \<in> set (groups_in_arrival_order results) \<longleftrightarrow>
     k \<in> akey ` set results \<and> chunks = sort_desc score (filter (\<lambda>r. akey r = k) results)"
  by (auto simp: groups_in_arrival_order_def)

lemma ranked_groups:
  fixes ga :: "(pystr \<times> result list) list"
  defines "ranked \<equiv> map (\<lambda>(k, chunks, s). (k, chunks))
        (sort_desc (\<lambda>(k, chunks, s). s) (map (\<lambda>(k, chunks). (k, chunks, composite_score chunks)) ga))"
  shows "set ranked = set ga"
    and "distinct (map fst ga) \<Longrightarrow> distinct (map fst ranked)"
    and "sorted_wrt (\<lambda>a b. composite_score (snd b) \<le> composite_score (snd a)) ranked"
    and "filter (\<lambda>g. composite_score (snd g) = c) ranked = filter (\<lambda>g. composite_score (snd g) = c) ga"
proof -
  let ?tr = "\<lambda>(k, chunks). (k, chunks, composite_score chunks)"
  let ?third = "\<lambda>(k :: pystr, chunks :: result list, s :: real). s"
  let ?proj = "\<lambda>(k :: pystr, chunks :: result list, s :: real). (k, chunks)"
  let ?L = "map ?tr ga"
  let ?S = "sort_desc ?third ?L"
  have third: "?third x = composite_score (snd (?proj x))" if "x \<in> set ?L" for x
    using that by auto
  have proj_tr: "map ?proj ?L = ga" by (simp add: comp_def case_prod_beta)
  show "set ranked = set ga"
  proof -
    have "set ranked = ?proj ` set ?S" unfolding ranked_def by (simp only: set_map)
    also have "\<dots> = ?proj ` set ?L" by (simp only: sort_desc_set)
    also have "\<dots> = set (map ?proj ?L)" by (simp only: set_map)
    finally show ?thesis unfolding proj_tr .
  qed
  show "distinct (map fst ranked)" if "distinct (map fst ga)"
  proof -
    have fp: "map (fst \<circ> ?proj) ?L = map fst ga" by (simp add: comp_def case_prod_beta)
    have "distinct (map (fst \<circ> ?proj) ?L)" unfolding fp by (rule that)
    then have "distinct ?L" and "inj_on (fst \<circ> ?proj) (set ?L)"
      by (simp_all only: distinct_map)
    then have "distinct ?S" and "inj_on (fst \<circ> ?proj) (set ?S)"
      by (simp_all add: sort_desc_def)
    then have "distinct (map (fst \<circ> ?proj) ?S)" by (simp only: distinct_map)
    then show ?thesis by (simp add: ranked_def)
  qed
  show "sorted_wrt (\<lambda>a b. composite_score (snd b) \<le> composite_score (snd a)) ranked"
  proof -
    have "sorted_wrt (\<lambda>a b. ?third b \<le> ?third a) ?S" by (rule sort_desc_sorted)
    then have "sorted_wrt (\<lambda>a b. composite_score (snd (?proj b)) \<le> composite_score (snd (?proj a))) ?S"
    proof (rule sorted_wrt_mono_rel [rotated])
      fix x y assume "x \<in> set ?S" "y \<in> set ?S" "?third y \<le> ?third x"
      then show "composite_score (snd (?proj y)) \<le> composite_score (snd (?proj x))"
        using third [of x] third [of y] by simp
    qed
    then show ?thesis by (simp add: ranked_def sorted_wrt_map)
  qed
  show "filter (\<lambda>g. composite_score (snd g) = c) ranked = filter (\<lambda>g. composite_score (snd g) = c) ga"
  proof -
    have "filter (\<lambda>g. composite_score (snd g) = c) ranked
        = map ?proj (filter (\<lambda>x. composite_score (snd (?proj x)) = c) ?S)"
      by (simp add: ranked_def filter_map comp_def)
    also have "filter (\<lambda>x. composite_score (snd (?proj x)) = c) ?S = filter (\<lambda>x. ?third x = c) ?S"
      by (rule filter_cong) (use third in auto)
    also have "\<dots> = filter (\<lambda>x. ?third x = c) ?L" by (rule sort_desc_stable)
    also have "\<dots> = filter (\<lambda>x. composite_score (snd (?proj x)) = c) ?L"
      by (rule filter_cong) (use third in auto)
    also have "map ?proj \<dots> = filter (\<lambda>g. composite_score (snd g) = c) (map ?proj ?L)"
      by (simp add: filter_map comp_def)
    finally show ?thesis unfolding proj_tr .
  qed
qed

text \<open>
  C3. For a non-empty list of fragments, \<open>_group_chunks_by_article\<close> returns one group per
  article key, each group holding the fragments of its article in descending order of
  score; the score by which a group is ranked is \<open>0.7\<close> times the best score of the group
  plus \<open>0.3\<close> times the mean of its scores, and the groups are in descending order of that
  score. In particular the article with the scores \<open>0.95\<close>, \<open>0.2\<close> (composite \<open>0.8375\<close>)
  comes before the article with the scores \<open>0.9\<close>, \<open>0.6\<close>, \<open>0.3\<close> (composite \<open>0.81\<close>).
\<close>

theorem group_chunks_composite_order:
  "(results \<noteq> [] \<longrightarrow>
      (\<exists>groups. group_chunks_by_article results = Some groups \<and> groups \<noteq> [] \<and>
         set (map fst groups) = akey ` set results \<and> distinct (map fst groups) \<and>
         (\<forall>(k, chunks) \<in> set groups.
            chunks = sort_desc score (filter (\<lambda>r. akey r = k) results) \<and> chunks \<noteq> [] \<and>
            article_score chunks = Some (composite_score chunks)) \<and>
         sorted_wrt (\<lambda>a b. composite_score (snd b) \<le> composite_score (snd a)) groups)) \<and>
   article_score [chunk ''code_penal'' ''12'' ''0'' (95 / 100),
                  chunk ''code_penal'' ''12'' ''1'' (2 / 10)] = Some (8375 / 10000) \<and>
   article_score [chunk ''code_travail'' ''41'' ''0'' (9 / 10),
                  chunk ''code_travail'' ''41'' ''1'' (6 / 10),
                  chunk ''code_travail'' ''41'' ''2'' (3 / 10)] = Some (81 / 100) \<and>
   group_chunks_by_article worked_example =
     Some [(ascii ''code_penal_12'',
            [chunk ''code_penal'' ''12'' ''0'' (95 / 100), chunk ''code_penal'' ''12'' ''1'' (2 / 10)]),
           (ascii ''code_travail_41'',
            [chunk ''code_travail'' ''41'' ''0'' (9 / 10), chunk ''code_travail'' ''41'' ''1'' (6 / 10),
             chunk ''code_travail'' ''41'' ''2'' (3 / 10)])]"
proof (intro conjI impI)
  assume ne: "results \<noteq> []"
  let ?ga = "groups_in_arrival_order results"
  define groups where "groups = map (\<lambda>(k, chunks, s). (k, chunks))
        (sort_desc (\<lambda>(k, chunks, s). s) (map (\<lambda>(k, chunks). (k, chunks, composite_score chunks)) ?ga))"
  have eq: "group_chunks_by_article results = Some groups"
    unfolding groups_def by (rule group_chunks_eq)
  have set_eq: "set groups = set ?ga" unfolding groups_def by (rule ranked_groups(1))
  have keys: "set (map fst groups) = akey ` set results"
  proof -
    have "set (map fst groups) = fst ` set ?ga" using set_eq by simp
    also have "\<dots> = set (map fst ?ga)" by simp
    finally show ?thesis by (simp add: groups_in_arrival_order_keys)
  qed
  have nonempty: "groups \<noteq> []"
    using keys ne by (cases groups) auto
  have dist: "distinct (map fst groups)"
    unfolding groups_def by (rule ranked_groups(2)) (simp add: groups_in_arrival_order_keys)
  have members: "\<forall>(k, chunks) \<in> set groups.
            chunks = sort_desc score (filter (\<lambda>r. akey r = k) results) \<and> chunks \<noteq> [] \<and>
            article_score chunks = Some (composite_score chunks)"
  proof (clarify, intro conjI)
    fix k chunks assume "(k, chunks) \<in> set groups"
    then have k: "k \<in> akey ` set results"
      and ch: "chunks = sort_desc score (filter (\<lambda>r. akey r = k) results)"
      by (simp_all add: set_eq groups_in_arrival_order_member)
    show "chunks = sort_desc score (filter (\<lambda>r. akey r = k) results)" by (rule ch)
    show ne': "chunks \<noteq> []" using k by (auto simp: ch filter_empty_conv)
    show "article_score chunks = Some (composite_score chunks)"
      using ne' unfolding ch by (intro article_score_sorted sort_desc_sorted)
  qed
  have sorted: "sorted_wrt (\<lambda>a b. composite_score (snd b) \<le> composite_score (snd a)) groups"
    unfolding groups_def by (rule ranked_groups(3))
  show "\<exists>groups. group_chunks_by_article results = Some groups \<and> groups \<noteq> [] \<and>
         set (map fst groups) = akey ` set results \<and> distinct (map fst groups) \<and>
         (\<forall>(k, chunks) \<in> set groups.
            chunks = sort_desc score (filter (\<lambda>r. akey r = k) results) \<and> chunks \<noteq> [] \<and>
            article_score chunks = Some (composite_score chunks)) \<and>
         sorted_wrt (\<lambda>a b. composite_score (snd b) \<le> composite_score (snd a)) groups"
    using eq nonempty keys dist members sorted by blast
next
  show "group_chunks_by_article worked_example =
     Some [(ascii ''code_penal_12'',
            [chunk ''code_penal'' ''12'' ''0'' (95 / 100), chunk ''code_penal'' ''12'' ''1'' (2 / 10)]),
           (ascii ''code_travail_41'',
            [chunk ''code_travail'' ''41'' ''0'' (9 / 10), chunk ''code_travail'' ''41'' ''1'' (6 / 10),
             chunk ''code_travail'' ''41'' ''2'' (3 / 10)])]"
    by (simp add: group_chunks_by_article_def worked_example_def add_chunk_def article_key_def
      fmt_def chunk_def ascii_def sort_desc_def Let_def)
qed (simp_all add: chunk_def)

theorem group_chunks_composite_order_witness:
  "worked_example \<noteq> [] \<and>
   group_chunks_by_article worked_example =
     Some [(ascii ''code_penal_12'',
            [chunk ''code_penal'' ''12'' ''0'' (95 / 100), chunk ''code_penal'' ''12'' ''1'' (2 / 10)]),
           (ascii ''code_travail_41'',
            [chunk ''code_travail'' ''41'' ''0'' (9 / 10), chunk ''code_travail'' ''41'' ''1'' (6 / 10),
             chunk ''code_travail'' ''41'' ''2'' (3 / 10)])] \<and>
   article_score
     [chunk ''code_penal'' ''12'' ''0'' (95 / 100), chunk ''code_penal'' ''12'' ''1'' (2 / 10)] =
     Some (composite_score
       [chunk ''code_penal'' ''12'' ''0'' (95 / 100), chunk ''code_penal'' ''12'' ''1'' (2 / 10)]) \<and>
   composite_score
     [chunk ''code_travail'' ''41'' ''0'' (9 / 10), chunk ''code_travail'' ''41'' ''1'' (6 / 10),
      chunk ''code_travail'' ''41'' ''2'' (3 / 10)]
   \<le> composite_score
     [chunk ''code_penal'' ''12'' ''0'' (95 / 100), chunk ''code_penal'' ''12'' ''1'' (2 / 10)]"
proof -
  have ne: "worked_example \<noteq> []" by (simp add: worked_example_def)
  from group_chunks_composite_order [of worked_example] ne
  obtain groups where g: "group_chunks_by_article worked_example = Some groups"
    and m: "\<forall>(k, chunks) \<in> set groups.
            chunks = sort_desc score (filter (\<lambda>r. akey r = k) worked_example) \<and> chunks \<noteq> [] \<and>
            article_score chunks = Some (composite_score chunks)"
    and s: "sorted_wrt (\<lambda>a b. composite_score (snd b) \<le> composite_score (snd a)) groups"
    and ex: "group_chunks_by_article worked_example =
     Some [(ascii ''code_penal_12'',
            [chunk ''code_penal'' ''12'' ''0'' (95 / 100), chunk ''code_penal'' ''12'' ''1'' (2 / 10)]),
           (ascii ''code_travail_41'',
            [chunk ''code_travail'' ''41'' ''0'' (9 / 10), chunk ''code_travail'' ''41'' ''1'' (6 / 10),
             chunk ''code_travail'' ''41'' ''2'' (3 / 10)])]"
    by (elim conjE impE exE)
  from g ex have groups: "groups =
     [(ascii ''code_penal_12'',
            [chunk ''code_penal'' ''12'' ''0'' (95 / 100), chunk ''code_penal'' ''12'' ''1'' (2 / 10)]),
           (ascii ''code_travail_41'',
            [chunk ''code_travail'' ''41'' ''0'' (9 / 10), chunk ''code_travail'' ''41'' ''1'' (6 / 10),
             chunk ''code_travail'' ''41'' ''2'' (3 / 10)])]"
    by simp
  have mem: "(ascii ''code_penal_12'',
            [chunk ''code_penal'' ''12'' ''0'' (95 / 100), chunk ''code_penal'' ''12'' ''1'' (2 / 10)])
          \<in> set groups"
    unfolding groups by (rule list.set_intros)
  from bspec [OF m mem] have "article_score
     [chunk ''code_penal'' ''12'' ''0'' (95 / 100), chunk ''code_penal'' ''12'' ''1'' (2 / 10)] =
     Some (composite_score
       [chunk ''code_penal'' ''12'' ''0'' (95 / 100), chunk ''code_penal'' ''12'' ''1'' (2 / 10)])"
    unfolding prod.case by (elim conjE)
  moreover from s have "composite_score
     [chunk ''code_travail'' ''41'' ''0'' (9 / 10), chunk ''code_travail'' ''41'' ''1'' (6 / 10),
      chunk ''code_travail'' ''41'' ''2'' (3 / 10)]
   \<le> composite_score
     [chunk ''code_penal'' ''12'' ''0'' (95 / 100), chunk ''code_penal'' ''12'' ''1'' (2 / 10)]"
    unfolding groups sorted_wrt.simps list.set by (elim conjE) (simp only: ball_simps snd_conv)
  ultimately show ?thesis using ne ex by (intro conjI)
qed

text \<open>
  C7, amended. \<open>_group_chunks_by_article\<close> has no tie-break on the article identity: the
  sort of the keys is stable, so groups with equal composite scores stay in the order in
  which their first fragment arrived. The output is a function of the input list, not of
  the input set.
\<close>

theorem group_chunks_ties_keep_arrival_order:
  "\<exists>groups. group_chunks_by_article results = Some groups \<and>
     (\<forall>c. filter (\<lambda>g. composite_score (snd g) = c) groups =
          filter (\<lambda>g. composite_score (snd g) = c) (groups_in_arrival_order results))"
  using group_chunks_eq [of results] ranked_groups(4) [of _ "groups_in_arrival_order results"]
  by simp

text \<open>
  C7, as stated, fails: two articles with the same composite score come out in arrival
  order, so the same two fragments give two different orders, one of which is not
  ascending in the article key.
\<close>

theorem group_chunks_tie_depends_on_arrival:
  "group_chunks_by_article
     [chunk ''code_travail'' ''41'' ''0'' (1 / 2), chunk ''code_penal'' ''12'' ''0'' (1 / 2)] =
     Some [(ascii ''code_travail_41'', [chunk ''code_travail'' ''41'' ''0'' (1 / 2)]),
           (ascii ''code_penal_12'', [chunk ''code_penal'' ''12'' ''0'' (1 / 2)])] \<and>
   group_chunks_by_article
     [chunk ''code_penal'' ''12'' ''0'' (1 / 2), chunk ''code_travail'' ''41'' ''0'' (1 / 2)] =
     Some [(ascii ''code_penal_12'', [chunk ''code_penal'' ''12'' ''0'' (1 / 2)]),
           (ascii ''code_travail_41'', [chunk ''code_travail'' ''41'' ''0'' (1 / 2)])] \<and>
   article_score [chunk ''code_travail'' ''41'' ''0'' (1 / 2)] =
     article_score [chunk ''code_penal'' ''12'' ''0'' (1 / 2)] \<and>
   ord_class.lexordp (ascii ''code_penal_12'') (ascii ''code_travail_41'')"
  by (simp add: group_chunks_by_article_def add_chunk_def article_key_def
      fmt_def chunk_def ascii_def sort_desc_def Let_def)

section \<open>The request pipeline\<close>

lemma set_py_take: "set (py_take n xs) \<subseteq> set xs"
  by (auto simp: py_take_def dest: in_set_takeD)

lemma set_py_slice_to: "set (py_slice_to n xs) \<subseteq> set xs"
  by (cases n) (auto simp: py_slice_to_def dest: subsetD [OF set_py_take])

lemma group_chunks_subset:
  assumes "group_chunks_by_article results = Some groups" and "(k, chunks) \<in> set groups"
  shows "set chunks \<subseteq> set results"
proof -
  have "set groups = set (groups_in_arrival_order results)"
    using assms(1) ranked_groups(1) [of "groups_in_arrival_order results"]
    by (simp add: group_chunks_eq)
  with assms(2) show ?thesis by (auto simp: groups_in_arrival_order_member)
qed

lemma flatten_best_subset:
  assumes "flatten_best results max_results = Some flattened"
  shows "set flattened \<subseteq> set results"
proof
  fix r assume r: "r \<in> set flattened"
  from assms obtain groups where g: "group_chunks_by_article results = Some groups"
    and fl: "flattened = concat (py_slice_to max_results (map snd groups))"
    by (auto simp: flatten_best_def split: option.splits)
  from r fl obtain chunks where "chunks \<in> set (py_slice_to max_results (map snd groups))" "r \<in> set chunks"
    by auto
  with set_py_slice_to [of max_results "map snd groups"] obtain k where "(k, chunks) \<in> set groups"
    by auto
  with group_chunks_subset [OF g] \<open>r \<in> set chunks\<close> show "r \<in> set results" by blast
qed

lemma retrieve_tagged:
  assumes "retrieve env question = Some results" and "r \<in> set results"
  shows "search_type r = Some (ascii ''vector'')"
  using assms by (auto simp: retrieve_def Let_def split: option.splits)

lemma vector_not_hybrid: "ascii ''vector'' \<noteq> ascii ''hybrid''"
  by (simp add: ascii_def)

lemma hybrid_bonus_vector:
  assumes "\<forall>r \<in> set results. search_type r = Some (ascii ''vector'')"
  shows "hybrid_bonus results = 1"
  using assms vector_not_hybrid by (auto simp: hybrid_bonus_def list_ex_iff)

lemma extract_sources_loop_subset:
  "set (extract_sources_loop results acc seen) \<subseteq> set acc \<union> make_source ` set results"
  by (induction results acc seen rule: extract_sources_loop.induct) (auto simp: Let_def)

lemma extract_sources_subset: "set (extract_sources results) \<subseteq> make_source ` set results"
  using extract_sources_loop_subset [of results "[]" "{}"] by (simp add: extract_sources_def)

lemma worked_example_grouped:
  "group_chunks_by_article worked_example =
     Some [(ascii ''code_penal_12'',
            [chunk ''code_penal'' ''12'' ''0'' (95 / 100), chunk ''code_penal'' ''12'' ''1'' (2 / 10)]),
           (ascii ''code_travail_41'',
            [chunk ''code_travail'' ''41'' ''0'' (9 / 10), chunk ''code_travail'' ''41'' ''1'' (6 / 10),
             chunk ''code_travail'' ''41'' ''2'' (3 / 10)])]"
  by (simp add: group_chunks_by_article_def worked_example_def add_chunk_def article_key_def
      fmt_def chunk_def ascii_def sort_desc_def Let_def)

lemma example_store_retrieve:
  "retrieve example_store question = Some worked_example"
  by (simp add: retrieve_def example_store_def worked_example_def chunk_def)

lemma example_store_flattened:
  "flatten_best worked_example (Some 5) =
     Some [chunk ''code_penal'' ''12'' ''0'' (95 / 100), chunk ''code_penal'' ''12'' ''1'' (2 / 10),
           chunk ''code_travail'' ''41'' ''0'' (9 / 10), chunk ''code_travail'' ''41'' ''1'' (6 / 10),
           chunk ''code_travail'' ''41'' ''2'' (3 / 10)]"
  by (simp add: flatten_best_def worked_example_grouped py_slice_to_def py_take_def)

text \<open>
  C10. Every result that \<open>search_and_answer\<close> handles comes from the vector store and is
  tagged \<open>vector\<close>, whatever tag it had; grouping and flattening keep the tag; so the
  \<open>hybrid\<close> test of \<open>_calculate_confidence\<close> fails, the bonus factor is \<open>1\<close>, and the
  search types and sources of the response are all \<open>vector\<close>.
\<close>

theorem search_and_answer_never_hybrid:
  "(\<forall>results flattened.
      retrieve env question = Some results \<longrightarrow>
      flatten_best results max_results = Some flattened \<longrightarrow>
        (\<forall>r \<in> set results. search_type r = Some (ascii ''vector'')) \<and>
        (\<forall>r \<in> set flattened. search_type r = Some (ascii ''vector'')) \<and>
        hybrid_bonus flattened = 1) \<and>
   (\<forall>s \<in> set (sources (search_and_answer env question max_results)).
      src_search_type s = ascii ''vector'') \<and>
   (\<forall>types. search_types (search_and_answer env question max_results) = Some types \<longrightarrow>
      (\<forall>t \<in> set types. t = ascii ''vector'')) \<and>
   (\<exists>flattened.
      confidence (search_and_answer env question max_results) = calculate_confidence flattened \<and>
      hybrid_bonus flattened = 1)"
proof -
  have stage: "(\<forall>r \<in> set results. search_type r = Some (ascii ''vector'')) \<and>
        (\<forall>r \<in> set flattened. search_type r = Some (ascii ''vector'')) \<and>
        hybrid_bonus flattened = 1"
    if "retrieve env question = Some results" "flatten_best results max_results = Some flattened"
    for results flattened
  proof -
    have a: "\<forall>r \<in> set results. search_type r = Some (ascii ''vector'')"
      using retrieve_tagged [OF that(1)] by blast
    have b: "\<forall>r \<in> set flattened. search_type r = Some (ascii ''vector'')"
      using a flatten_best_subset [OF that(2)] by blast
    from a b hybrid_bonus_vector [OF b] show ?thesis by blast
  qed
  let ?resp = "search_and_answer env question max_results"
  have nil: "hybrid_bonus [] = 1" by (simp add: hybrid_bonus_def)
  have conf0: "calculate_confidence [] = 0" by (simp add: calculate_confidence_def)
  consider (degraded) "?resp = error_response \<or> ?resp = no_information_response"
    | (answered) results flattened where "retrieve env question = Some results"
        "flatten_best results max_results = Some flattened"
        "sources ?resp = extract_sources (py_slice_to max_results flattened)"
        "confidence ?resp = calculate_confidence flattened"
        "search_types ?resp = Some (map (\<lambda>r. get_or (search_type r) (ascii ''unknown''))
                            (py_take 5 flattened))"
  proof (cases "retrieve env question")
    case None
    then have "?resp = error_response" by (simp add: search_and_answer_def)
    then show ?thesis using that(1) by blast
  next
    case (Some results)
    show ?thesis
    proof (cases "results = []")
      case True
      with Some have "?resp = no_information_response" by (simp add: search_and_answer_def)
      then show ?thesis using that(1) by blast
    next
      case False
      show ?thesis
      proof (cases "flatten_best results max_results")
        case None
        with Some False have "?resp = error_response" by (simp add: search_and_answer_def)
        then show ?thesis using that(1) by blast
      next
        case (Some flattened)
        show ?thesis
          by (rule that(2) [of results flattened])
            (use \<open>retrieve env question = Some results\<close> False Some
              in \<open>simp_all add: search_and_answer_def\<close>)
      qed
    qed
  qed
  then have resp: "(\<forall>s \<in> set (sources ?resp). src_search_type s = ascii ''vector'') \<and>
   (\<forall>types. search_types ?resp = Some types \<longrightarrow> (\<forall>t \<in> set types. t = ascii ''vector'')) \<and>
   (\<exists>flattened. confidence ?resp = calculate_confidence flattened \<and> hybrid_bonus flattened = 1)"
  proof cases
    case degraded
    then have "sources ?resp = []" "search_types ?resp = None" "confidence ?resp = 0"
      by (auto simp: error_response_def no_information_response_def)
    then show ?thesis using nil conf0 by (metis empty_iff list.set(1) option.distinct(1))
  next
    case (answered results flattened)
    from stage [OF answered(1,2)]
    have b: "\<forall>r \<in> set flattened. search_type r = Some (ascii ''vector'')"
      and hb: "hybrid_bonus flattened = 1" by blast+
    have s: "\<forall>s \<in> set (sources ?resp). src_search_type s = ascii ''vector''"
    proof
      fix s assume "s \<in> set (sources ?resp)"
      then obtain r where "r \<in> set (py_slice_to max_results flattened)" "s = make_source r"
        using extract_sources_subset unfolding answered(3) by blast
      with b set_py_slice_to [of max_results flattened] show "src_search_type s = ascii ''vector''"
        by (auto simp: make_source_def Let_def get_or_def)
    qed
    have t: "\<forall>t \<in> set types. t = ascii ''vector''" if "search_types ?resp = Some types" for types
    proof
      fix t assume "t \<in> set types"
      with that answered(5) obtain r where "r \<in> set (py_take 5 flattened)"
        "t = get_or (search_type r) (ascii ''unknown'')" by auto
      with b set_py_take [of 5 flattened] show "t = ascii ''vector''"
        by (auto simp: get_or_def)
    qed
    from s t answered(4) hb show ?thesis by blast
  qed
  from stage resp show ?thesis by blast
qed

theorem search_and_answer_never_hybrid_witness:
  "retrieve example_store (ascii ''question'') = Some worked_example \<and>
   flatten_best worked_example (Some 5) =
     Some [chunk ''code_penal'' ''12'' ''0'' (95 / 100), chunk ''code_penal'' ''12'' ''1'' (2 / 10),
           chunk ''code_travail'' ''41'' ''0'' (9 / 10), chunk ''code_travail'' ''41'' ''1'' (6 / 10),
           chunk ''code_travail'' ''41'' ''2'' (3 / 10)] \<and>
   hybrid_bonus
     [chunk ''code_penal'' ''12'' ''0'' (95 / 100), chunk ''code_penal'' ''12'' ''1'' (2 / 10),
      chunk ''code_travail'' ''41'' ''0'' (9 / 10), chunk ''code_travail'' ''41'' ''1'' (6 / 10),
      chunk ''code_travail'' ''41'' ''2'' (3 / 10)] = 1 \<and>
   search_types (search_and_answer example_store (ascii ''question'') (Some 5)) =
     Some [ascii ''vector'', ascii ''vector'', ascii ''vector'', ascii ''vector'', ascii ''vector''] \<and>
   map src_search_type (sources (search_and_answer example_store (ascii ''question'') (Some 5))) =
     [ascii ''vector'', ascii ''vector''] \<and>
   confidence (search_and_answer example_store (ascii ''question'') (Some 5)) = 59 / 100"
proof -
  let ?fl = "[chunk ''code_penal'' ''12'' ''0'' (95 / 100), chunk ''code_penal'' ''12'' ''1'' (2 / 10),
      chunk ''code_travail'' ''41'' ''0'' (9 / 10), chunk ''code_travail'' ''41'' ''1'' (6 / 10),
      chunk ''code_travail'' ''41'' ''2'' (3 / 10)]"
  have r: "retrieve example_store (ascii ''question'') = Some worked_example"
    by (rule example_store_retrieve)
  have f: "flatten_best worked_example (Some 5) = Some ?fl"
    by (rule example_store_flattened)
  from search_and_answer_never_hybrid [of example_store "ascii ''question''" "Some 5"] r f
  have hb: "hybrid_bonus ?fl = 1" by blast
  have ne: "worked_example \<noteq> []" by (simp add: worked_example_def)
  have resp: "search_and_answer example_store (ascii ''question'') (Some 5) =
     \<lparr>answer = generate example_store (ascii ''question'') (py_take 10 ?fl),
      sources = extract_sources (py_slice_to (Some 5) ?fl),
      confidence = calculate_confidence ?fl,
      search_results_count = length worked_example,
      search_types = Some (map (\<lambda>r. get_or (search_type r) (ascii ''unknown'')) (py_take 5 ?fl))\<rparr>"
    using ne by (simp add: search_and_answer_def r f)
  have types: "map (\<lambda>r. get_or (search_type r) (ascii ''unknown'')) (py_take 5 ?fl) =
     [ascii ''vector'', ascii ''vector'', ascii ''vector'', ascii ''vector'', ascii ''vector'']"
    by (simp add: py_take_def chunk_def get_or_def)
  have srcs: "map src_search_type (extract_sources (py_slice_to (Some 5) ?fl)) =
     [ascii ''vector'', ascii ''vector'']"
    by (simp add: extract_sources_def py_slice_to_def py_take_def make_source_def article_key_def
        fmt_def get_or_def chunk_def Let_def ascii_def)
  have conf: "calculate_confidence ?fl = 59 / 100"
    by (simp add: calculate_confidence_def hybrid_bonus_def py_take_def chunk_def ascii_def
        py_round_def round_half_even_def Let_def)
  show ?thesis using r f hb types srcs conf by (simp only: resp response.simps simp_thms)
qed

text \<open>
  C6. When the vector store returns no result, \<open>search_and_answer\<close> returns the fixed
  response: the message that no information was found, no sources, confidence \<open>0\<close> and a
  result count of \<open>0\<close>; it is not the response of the \<open>except\<close> branch.
\<close>

theorem search_and_answer_no_results:
  assumes "encode env (reformulate env question) = Some v" and "vs_search env v 20 = []"
  shows "search_and_answer env question max_results =
           \<lparr>answer = ascii ''Aucune information trouv'' @ [233] @ ascii ''e dans les textes juridiques.'',
            sources = [], confidence = 0, search_results_count = 0, search_types = None\<rparr>
         \<and> search_and_answer env question max_results \<noteq> error_response"
  using assms
  by (simp add: search_and_answer_def retrieve_def no_information_response_def error_response_def
      ascii_def)

theorem search_and_answer_no_results_witness:
  "encode empty_store (reformulate empty_store (ascii ''question'')) = Some () \<and>
   vs_search empty_store () 20 = [] \<and>
   confidence (search_and_answer empty_store (ascii ''question'') (Some 5)) = 0 \<and>
   sources (search_and_answer empty_store (ascii ''question'') (Some 5)) = [] \<and>
   search_results_count (search_and_answer empty_store (ascii ''question'') (Some 5)) = 0"
  using search_and_answer_no_results [of empty_store "ascii ''question''" "()" "Some 5"]
  by (simp add: empty_store_def)

section \<open>Sources\<close>

lemma extract_sources_loop_eq:
  "extract_sources_loop results acc seen =
     acc @ map make_source (first_per_article (filter (\<lambda>x. akey x \<notin> seen) results))"
proof (induction results acc seen rule: extract_sources_loop.induct)
  case (1 sources seen_articles)
  then show ?case by simp
next
  case (2 r rs sources seen_articles)
  show ?case
  proof (cases "akey r \<in> seen_articles")
    case True
    with 2 show ?thesis by simp
  next
    case False
    have "filter (\<lambda>x. akey x \<notin> insert (akey r) seen_articles) rs =
          filter (\<lambda>x. akey x \<noteq> akey r) (filter (\<lambda>x. akey x \<notin> seen_articles) rs)"
      by (auto intro: filter_cong)
    with False 2 show ?thesis by simp
  qed
qed

lemma extract_sources_eq: "extract_sources results = map make_source (first_per_article results)"
  by (simp add: extract_sources_def extract_sources_loop_eq)

lemma first_per_article_subset: "set (first_per_article results) \<subseteq> set results"
  by (induction results rule: first_per_article.induct) auto

lemma find_filter_keep:
  "(\<And>x. P x \<Longrightarrow> Q x) \<Longrightarrow> find P (filter Q xs) = find P xs"
  by (induction xs) auto

lemma first_per_article_unique:
  "find (\<lambda>x. akey x = k) results = Some r \<Longrightarrow>
   filter (\<lambda>x. akey x = k) (first_per_article results) = [r]"
proof (induction results rule: first_per_article.induct)
  case 1
  then show ?case by simp
next
  case (2 x xs)
  show ?case
  proof (cases "akey x = k")
    case True
    with 2 have "r = x" by simp
    have "filter (\<lambda>y. akey y = k) (first_per_article (filter (\<lambda>y. akey y \<noteq> akey x) xs)) = []"
      using first_per_article_subset [of "filter (\<lambda>y. akey y \<noteq> akey x) xs"] True
      by (auto simp: filter_empty_conv)
    with True \<open>r = x\<close> show ?thesis by simp
  next
    case False
    with 2 have "find (\<lambda>y. akey y = k) xs = Some r" by simp
    then have "find (\<lambda>y. akey y = k) (filter (\<lambda>y. akey y \<noteq> akey x) xs) = Some r"
      using False by (subst find_filter_keep) auto
    with 2 False show ?thesis by simp
  qed
qed

lemma find_filter_hd: "find P xs = Some r \<Longrightarrow> \<exists>rest. filter P xs = r # rest"
  by (induction xs) (auto split: if_splits)

text \<open>
  C5, amended. \<open>_extract_sources\<close> returns one entry per article key, made from the first
  result of the list with that key, whatever its score. That result has the highest score
  of its article when the results of the article are in descending order of score.
\<close>

theorem extract_sources_keeps_first:
  "extract_sources results = map make_source (first_per_article results) \<and>
   (\<forall>k r. find (\<lambda>x. akey x = k) results = Some r \<longrightarrow>
      filter (\<lambda>x. akey x = k) (first_per_article results) = [r] \<and>
      (sorted_wrt (\<lambda>a b. score b \<le> score a) (filter (\<lambda>x. akey x = k) results) \<longrightarrow>
         (\<forall>x \<in> set results. akey x = k \<longrightarrow> score x \<le> score r)))"
proof (intro conjI allI impI ballI)
  show "extract_sources results = map make_source (first_per_article results)"
    by (rule extract_sources_eq)
next
  fix k r assume "find (\<lambda>x. akey x = k) results = Some r"
  then show "filter (\<lambda>x. akey x = k) (first_per_article results) = [r]"
    by (rule first_per_article_unique)
next
  fix k r x
  assume f: "find (\<lambda>x. akey x = k) results = Some r"
    and s: "sorted_wrt (\<lambda>a b. score b \<le> score a) (filter (\<lambda>x. akey x = k) results)"
    and x: "x \<in> set results" "akey x = k"
  from find_filter_hd [OF f] obtain rest where rest: "filter (\<lambda>x. akey x = k) results = r # rest"
    by blast
  from x have "x \<in> set (filter (\<lambda>x. akey x = k) results)" by simp
  then have "x = r \<or> x \<in> set rest" unfolding rest by simp
  with s show "score x \<le> score r" unfolding rest by auto
qed

theorem extract_sources_keeps_first_witness:
  "find (\<lambda>x. akey x = ascii ''code_penal_12'')
     [chunk ''code_penal'' ''12'' ''0'' (95 / 100), chunk ''code_penal'' ''12'' ''1'' (2 / 10),
      chunk ''code_travail'' ''41'' ''0'' (9 / 10)] = Some (chunk ''code_penal'' ''12'' ''0'' (95 / 100)) \<and>
   filter (\<lambda>x. akey x = ascii ''code_penal_12'')
     (first_per_article
        [chunk ''code_penal'' ''12'' ''0'' (95 / 100), chunk ''code_penal'' ''12'' ''1'' (2 / 10),
         chunk ''code_travail'' ''41'' ''0'' (9 / 10)]) = [chunk ''code_penal'' ''12'' ''0'' (95 / 100)] \<and>
   extract_sources
     [chunk ''code_penal'' ''12'' ''0'' (95 / 100), chunk ''code_penal'' ''12'' ''1'' (2 / 10),
      chunk ''code_travail'' ''41'' ''0'' (9 / 10)] =
     [make_source (chunk ''code_penal'' ''12'' ''0'' (95 / 100)),
      make_source (chunk ''code_travail'' ''41'' ''0'' (9 / 10))]"
  using extract_sources_keeps_first
    [of "[chunk ''code_penal'' ''12'' ''0'' (95 / 100), chunk ''code_penal'' ''12'' ''1'' (2 / 10),
          chunk ''code_travail'' ''41'' ''0'' (9 / 10)]"]
  by (simp add: article_key_def fmt_def chunk_def ascii_def)

text \<open>
  C5, as stated, fails: of two fragments of one article the first is kept, here the one
  with the lower score.
\<close>

theorem extract_sources_keeps_lower_scored:
  "extract_sources
     [chunk ''code_penal'' ''12'' ''0'' (2 / 10), chunk ''code_penal'' ''12'' ''1'' (9 / 10)] =
     [make_source (chunk ''code_penal'' ''12'' ''0'' (2 / 10))] \<and>
   akey (chunk ''code_penal'' ''12'' ''0'' (2 / 10)) = akey (chunk ''code_penal'' ''12'' ''1'' (9 / 10)) \<and>
   score (chunk ''code_penal'' ''12'' ''0'' (2 / 10)) < score (chunk ''code_penal'' ''12'' ''1'' (9 / 10)) \<and>
   relevance_score (make_source (chunk ''code_penal'' ''12'' ''0'' (2 / 10))) = 2 / 10"
  by (simp add: extract_sources_def article_key_def fmt_def chunk_def ascii_def Let_def
      make_source_def py_round_def round_half_even_def)

lemma preview_cases:
  "length (preview t) \<le> 153 \<and>
   (length t \<le> 150 \<longrightarrow> preview t = t) \<and>
   (150 < length t \<longrightarrow> preview t = take 150 t @ ascii ''...'' \<and> length (preview t) = 153)"
  by (simp add: preview_def ascii_def)

text \<open>
  C9, amended. The preview of a source is the text of its fragment when the text has at
  most 150 characters, and otherwise the first 150 characters followed by \<open>...\<close>, which
  makes 153 characters; so a preview has at most 153 characters.
\<close>

theorem extract_sources_preview:
  assumes "s \<in> set (extract_sources results)"
  shows "\<exists>r \<in> set results.
           length (text_preview s) \<le> 153 \<and>
           (length (chunk_text r) \<le> 150 \<longrightarrow> text_preview s = chunk_text r) \<and>
           (150 < length (chunk_text r) \<longrightarrow>
              text_preview s = take 150 (chunk_text r) @ ascii ''...'' \<and>
              length (text_preview s) = 153)"
proof -
  from assms obtain r where r: "r \<in> set results" and s: "s = make_source r"
    using first_per_article_subset [of results] by (auto simp: extract_sources_eq)
  have "text_preview s = preview (chunk_text r)" by (simp add: s make_source_def Let_def)
  with preview_cases [of "chunk_text r"] r show ?thesis by auto
qed

theorem extract_sources_preview_witness:
  "make_source long_chunk \<in> set (extract_sources [long_chunk]) \<and>
   150 < length (chunk_text long_chunk) \<and>
   text_preview (make_source long_chunk) = replicate 150 97 @ ascii ''...''"
  using extract_sources_preview [of "make_source long_chunk" "[long_chunk]"]
  by (simp add: extract_sources_def long_chunk_def chunk_def)

text \<open>
  C9, as stated, fails: the ellipsis is added after the 150 characters, so the preview of
  a text of 151 characters has 153 characters.
\<close>

theorem extract_sources_preview_153:
  "map (\<lambda>s. length (text_preview s)) (extract_sources [long_chunk]) = [153] \<and>
   length (chunk_text long_chunk) = 151"
  by (simp add: extract_sources_def make_source_def preview_def long_chunk_def chunk_def ascii_def
      Let_def)

section \<open>Rebuilding the keyword index\<close>

lemma append_documents_index:
  "s' \<in> set (append_documents s rs) \<Longrightarrow> bm25_index s' = bm25_index s"
  by (induction s rs rule: append_documents.induct) (auto simp: Let_def)

lemma append_documents_last:
  "active (last (s # append_documents s rs)) =
     (bm25_index s, documents s @ map chunk_text rs, metadata_list s @ map metadata rs)"
  by (induction s rs rule: append_documents.induct) (simp_all add: Let_def active_def)

lemma append_documents_last_cache:
  "cache_file (last (s # append_documents s rs)) = cache_file s"
  by (induction s rs rule: append_documents.induct) (simp_all add: Let_def)

lemma create_steps_index:
  assumes "s' \<in> set (create_bm25_index_steps env s)"
  shows "bm25_index s' = bm25_index s \<or>
     (\<exists>index. BM25Okapi env (map (\<lambda>r. tokenize_text env (chunk_text r)) (all_results env)) = Some index \<and>
        active s' = (Some index, map chunk_text (all_results env), map metadata (all_results env)))"
proof -
  let ?s1 = "s\<lparr>documents := []\<rparr>"
  let ?s2 = "s\<lparr>documents := [], metadata_list := []\<rparr>"
  let ?loop = "append_documents ?s2 (all_results env)"
  let ?s3 = "last (?s2 # ?loop)"
  let ?toks = "map (\<lambda>r. tokenize_text env (chunk_text r)) (all_results env)"
  define rest where "rest =
         (if ?toks \<noteq> [] then
            (case BM25Okapi env ?toks of
               None \<Rightarrow> []
             | Some index \<Rightarrow>
                 (let s4 = ?s3\<lparr>bm25_index := Some index\<rparr>
                  in s4 #
                     (if write_ok env
                      then [s4\<lparr>cache_file := Some (index, documents s4, metadata_list s4)\<rparr>]
                      else [])))
          else [])"
  have steps: "create_bm25_index_steps env s = [?s1, ?s2] @ ?loop @ rest"
    by (simp only: create_bm25_index_steps_def Let_def rest_def)
  have s3: "bm25_index ?s3 = bm25_index s \<and> documents ?s3 = map chunk_text (all_results env) \<and>
      metadata_list ?s3 = map metadata (all_results env)"
    using append_documents_last [of ?s2 "all_results env"] by (simp add: active_def)
  from assms have "s' = ?s1 \<or> s' = ?s2 \<or> s' \<in> set ?loop \<or> s' \<in> set rest"
    unfolding steps by simp
  then consider (old) "bm25_index s' = bm25_index s" | (new) "s' \<in> set rest"
  proof (elim disjE)
    assume "s' = ?s1"
    then have "bm25_index s' = bm25_index s" by simp
    then show ?thesis by (rule that(1))
  next
    assume "s' = ?s2"
    then have "bm25_index s' = bm25_index s" by simp
    then show ?thesis by (rule that(1))
  next
    assume "s' \<in> set ?loop"
    from append_documents_index [OF this] have "bm25_index s' = bm25_index s" by simp
    then show ?thesis by (rule that(1))
  next
    assume "s' \<in> set rest"
    then show ?thesis by (rule that(2))
  qed
  then show ?thesis
  proof cases
    case old
    then show ?thesis by (rule disjI1)
  next
    case new
    show ?thesis
    proof (cases "BM25Okapi env ?toks")
      case None
      then have "rest = []" by (simp add: rest_def)
      with new have False by simp
      then show ?thesis ..
    next
      case (Some index)
      with new have "s' = ?s3\<lparr>bm25_index := Some index\<rparr> \<or>
          s' = ?s3\<lparr>bm25_index := Some index,
               cache_file := Some (index, documents ?s3, metadata_list ?s3)\<rparr>"
      proof (cases "?toks = []")
        case True
        then have "rest = []" by (simp add: rest_def)
        with new show ?thesis by simp
      next
        case False
        then have "rest = ?s3\<lparr>bm25_index := Some index\<rparr> #
            (if write_ok env
             then [?s3\<lparr>bm25_index := Some index,
                      cache_file := Some (index, documents ?s3, metadata_list ?s3)\<rparr>]
             else [])"
          using Some by (simp add: rest_def Let_def)
        with new show ?thesis by (cases "write_ok env") simp_all
      qed
      then have "active s' = (Some index, map chunk_text (all_results env), map metadata (all_results env))"
        using s3 by (elim disjE) (simp_all add: active_def)
      with Some show ?thesis by blast
    qed
  qed
qed

lemma create_final:
  assumes "all_results env \<noteq> []"
    and "BM25Okapi env (map (\<lambda>r. tokenize_text env (chunk_text r)) (all_results env)) = Some index"
  shows "active (last (s # create_bm25_index_steps env s)) =
     (Some index, map chunk_text (all_results env), map metadata (all_results env))"
proof -
  let ?s2 = "s\<lparr>documents := [], metadata_list := []\<rparr>"
  let ?s3 = "last (?s2 # append_documents ?s2 (all_results env))"
  have s3: "active ?s3 = (bm25_index s, map chunk_text (all_results env), map metadata (all_results env))"
    using append_documents_last [of ?s2 "all_results env"] by simp
  show ?thesis
    using assms s3 by (simp add: create_bm25_index_steps_def Let_def active_def)
qed

text \<open>
  C8, amended. A rebuild works on the fields of the engine themselves: it empties the
  lists of documents and metadata and refills them one result at a time while the previous
  BM25 structure is still in place, and it assigns the new BM25 structure last. So at every
  step the BM25 structure is the previous one, or it is the new one together with the
  complete new lists. When the collection is not empty, the construction succeeds and the
  cache file can be removed, the rebuild ends in the complete new snapshot.
\<close>

theorem rebuild_bm25_index_in_place:
  "(\<forall>s' \<in> set (rebuild_bm25_index_steps env s).
      bm25_index s' = bm25_index s \<or>
      (\<exists>index. BM25Okapi env (map (\<lambda>r. tokenize_text env (chunk_text r)) (all_results env)) = Some index \<and>
         active s' = (Some index, map chunk_text (all_results env), map metadata (all_results env)))) \<and>
   (all_results env \<noteq> [] \<longrightarrow>
    BM25Okapi env (map (\<lambda>r. tokenize_text env (chunk_text r)) (all_results env)) = Some index \<longrightarrow>
    (cache_file s \<noteq> None \<longrightarrow> remove_ok env) \<longrightarrow>
      active (rebuild_bm25_index env s) =
        (Some index, map chunk_text (all_results env), map metadata (all_results env)))"
proof (intro conjI ballI impI)
  fix s' assume s': "s' \<in> set (rebuild_bm25_index_steps env s)"
  let ?s0 = "s\<lparr>cache_file := None\<rparr>"
  from s' consider "s' = ?s0" | "s' \<in> set (create_bm25_index_steps env ?s0)"
    | "s' \<in> set (create_bm25_index_steps env s)"
    by (auto simp: rebuild_bm25_index_steps_def Let_def split: if_splits)
  then show "bm25_index s' = bm25_index s \<or>
      (\<exists>index. BM25Okapi env (map (\<lambda>r. tokenize_text env (chunk_text r)) (all_results env)) = Some index \<and>
         active s' = (Some index, map chunk_text (all_results env), map metadata (all_results env)))"
  proof cases
    case 1
    then show ?thesis by simp
  next
    case 2
    from create_steps_index [OF this] show ?thesis by simp
  next
    case 3
    from create_steps_index [OF this] show ?thesis .
  qed
next
  assume ne: "all_results env \<noteq> []"
    and ix: "BM25Okapi env (map (\<lambda>r. tokenize_text env (chunk_text r)) (all_results env)) = Some index"
    and rm: "cache_file s \<noteq> None \<longrightarrow> remove_ok env"
  have steps_ne: "create_bm25_index_steps env t \<noteq> []" for t
    by (simp add: create_bm25_index_steps_def Let_def)
  show "active (rebuild_bm25_index env s) =
        (Some index, map chunk_text (all_results env), map metadata (all_results env))"
  proof (cases "cache_file s = None")
    case True
    then show ?thesis
      using create_final [OF ne ix, of s] by (simp add: rebuild_bm25_index_def rebuild_bm25_index_steps_def)
  next
    case False
    with rm have "remove_ok env" by simp
    with False show ?thesis
      using create_final [OF ne ix, of "s\<lparr>cache_file := None\<rparr>"] steps_ne
      by (simp add: rebuild_bm25_index_def rebuild_bm25_index_steps_def Let_def)
  qed
qed

text \<open>
  C8, as stated, fails: after the first document is appended the engine holds the previous
  BM25 structure with the new list of documents and an empty list of metadata, which is
  neither the previous snapshot nor the next one.
\<close>

theorem rebuild_bm25_index_mixed_state:
  "active old_engine =
     (Some 0, [ascii ''ancien''], [metadata (chunk ''code_route'' ''7'' ''0'' 0)]) \<and>
   active (rebuild_bm25_index one_document old_engine) =
     (Some 1, [ascii ''texte''], [metadata (chunk ''code_penal'' ''12'' ''0'' 0)]) \<and>
   active (rebuild_bm25_index_steps one_document old_engine ! 3) =
     (Some 0, [ascii ''texte''], []) \<and>
   rebuild_bm25_index_steps one_document old_engine ! 3
     \<in> set (rebuild_bm25_index_steps one_document old_engine)"
  by (simp add: rebuild_bm25_index_def rebuild_bm25_index_steps_def create_bm25_index_steps_def
      old_engine_def one_document_def active_def chunk_def Let_def)

theorem rebuild_bm25_index_in_place_witness:
  "all_results one_document \<noteq> [] \<and>
   BM25Okapi one_document
     (map (\<lambda>r. tokenize_text one_document (chunk_text r)) (all_results one_document)) = Some 1 \<and>
   cache_file old_engine \<noteq> None \<and> remove_ok one_document \<and>
   active (rebuild_bm25_index one_document old_engine) =
     (Some 1, [ascii ''texte''], [metadata (chunk ''code_penal'' ''12'' ''0'' 0)]) \<and>
   rebuild_bm25_index_steps one_document old_engine ! 3
     \<in> set (rebuild_bm25_index_steps one_document old_engine) \<and>
   bm25_index (rebuild_bm25_index_steps one_document old_engine ! 3) = bm25_index old_engine"
  using rebuild_bm25_index_in_place [of one_document old_engine 1]
  by (simp add: rebuild_bm25_index_steps_def create_bm25_index_steps_def
      old_engine_def one_document_def chunk_def Let_def)

section \<open>Score fusion\<close>

lemma last_norm_Nil [simp]: "last_norm key [] d = 0"
  by (simp add: last_norm_def)

lemma last_norm_snoc:
  "last_norm key (rs @ [r]) d = (if doc_id r = d then get_norm key r else last_norm key rs d)"
  by (simp add: last_norm_def)

lemma last_norm_absent: "d \<notin> doc_id ` set rs \<Longrightarrow> last_norm key rs d = 0"
proof -
  assume "d \<notin> doc_id ` set rs"
  then have "find (\<lambda>r. doc_id r = d) (rev rs) = None" by (auto simp: find_None_iff)
  then show ?thesis by (simp add: last_norm_def)
qed

lemma find_SomeD: "find P xs = Some x \<Longrightarrow> x \<in> set xs \<and> P x"
  by (induction xs) (auto split: if_splits)

lemma last_norm_distinct:
  assumes "distinct (map doc_id rs)" and "r \<in> set rs"
  shows "last_norm key rs (doc_id r) = get_norm key r"
proof (cases "find (\<lambda>y. doc_id y = doc_id r) (rev rs)")
  case None
  then have "\<forall>y \<in> set rs. doc_id y \<noteq> doc_id r" by (simp add: find_None_iff)
  then have "doc_id r \<noteq> doc_id r" using assms(2) by (rule bspec)
  then show ?thesis by simp
next
  case (Some x)
  from find_SomeD [OF this] have xin: "x \<in> set rs" and eq: "doc_id x = doc_id r" by simp_all
  from assms(1) have inj: "inj_on doc_id (set rs)" by (simp add: distinct_map)
  have "x = r" by (rule inj_onD [OF inj eq xin assms(2)])
  with Some show ?thesis by (simp add: last_norm_def)
qed

lemma merged_ok_empty: "merged_ok [] [] []"
  by (simp add: merged_ok_def)

lemma merged_ok_add_vector:
  assumes "merged_ok vn [] md"
  shows "merged_ok (vn @ [r]) [] (add_vector md r)"
  using assms
  by (auto simp: merged_ok_def add_vector_def Let_def update_conv' dom_update distinct_update
      last_norm_snoc split: if_splits)

lemma merged_ok_vectors: "merged_ok vn [] (foldl add_vector [] vn)"
  by (induction vn rule: rev_induct) (simp_all add: merged_ok_empty merged_ok_add_vector)

lemma merged_ok_add_bm25:
  assumes "merged_ok vn bn md"
  shows "merged_ok vn (bn @ [r]) (add_bm25 md r)"
proof (cases "map_of md (doc_id r)")
  case None
  then have "doc_id r \<notin> fst ` set md" by (simp add: map_of_eq_None_iff)
  with assms have "doc_id r \<notin> doc_id ` set vn" by (simp add: merged_ok_def)
  then have zero: "last_norm VectorScore vn (doc_id r) = 0" by (rule last_norm_absent)
  show ?thesis
    using assms None zero
    by (auto simp: merged_ok_def add_bm25_def Let_def update_conv' dom_update distinct_update
        last_norm_snoc split: if_splits)
next
  case (Some doc)
  then have "doc_id r \<in> fst ` set md" by (meson domI domIff map_of_eq_None_iff)
  with assms Some show ?thesis
    by (auto simp: merged_ok_def add_bm25_def Let_def update_conv' dom_update distinct_update
        last_norm_snoc split: if_splits)
qed

lemma merged_ok_all:
  "merged_ok vn bn (foldl add_bm25 (foldl add_vector [] vn) bn)"
  by (induction bn rule: rev_induct) (simp_all add: merged_ok_vectors merged_ok_add_bm25)


lemma final_score_fuse:
  assumes "vector_score_norm doc = Some v" and "bm25_score_norm doc = Some b"
  shows "final_score doc = Some (fuse doc)"
  using assms by (simp add: final_score_def fuse_def get_norm_def Let_def)

lemma final_scores_fuse:
  assumes "\<forall>doc \<in> set docs. vector_score_norm doc \<noteq> None \<and> bm25_score_norm doc \<noteq> None"
  shows "final_scores docs = Some (map fuse docs)"
  using assms
proof (induction docs)
  case Nil
  then show ?case by simp
next
  case (Cons doc docs)
  then obtain v b where "vector_score_norm doc = Some v" "bm25_score_norm doc = Some b"
    by auto
  then have "final_score doc = Some (fuse doc)" by (rule final_score_fuse)
  with Cons show ?case by simp
qed

lemma doc_id_fuse [simp]: "doc_id (fuse doc) = doc_id doc"
  by (simp add: fuse_def Let_def)

lemma score_fuse:
  "score (fuse doc) = 0.4 * get_norm VectorScore doc + 0.6 * get_norm Bm25Score doc"
  by (simp add: fuse_def Let_def)

lemma doc_id_normalize [simp]:
  "map doc_id (normalize_scores rs key) = map doc_id rs"
  by (simp add: normalize_scores_def Let_def comp_def)

lemma set_doc_id_normalize [simp]:
  "doc_id ` set (normalize_scores rs key) = doc_id ` set rs"
  using doc_id_normalize [of rs key] by (metis set_map)

lemma py_take_nonneg: "0 \<le> n \<Longrightarrow> py_take n xs = take (nat n) xs"
  by (simp add: py_take_def)

text \<open>
  C1. \<open>_merge_results\<close> returns the first \<open>limit\<close> elements of a list that holds one
  document per fragment identity of the two hit lists, in descending order of score,
  where the score of a document is \<open>0.4\<close> times its normalised vector score plus \<open>0.6\<close>
  times its normalised BM25 score, a score being \<open>0\<close> for a fragment that the list does
  not hold.
\<close>

theorem merge_results_fused:
  "\<exists>merged.
     merge_results vector_results bm25_results limit = py_take limit merged \<and>
     (0 \<le> limit \<longrightarrow>
        merge_results vector_results bm25_results limit = take (nat limit) merged) \<and>
     sorted_wrt (\<lambda>a b. score b \<le> score a) merged \<and>
     distinct (map doc_id merged) \<and>
     doc_id ` set merged = doc_id ` set vector_results \<union> doc_id ` set bm25_results \<and>
     (\<forall>doc \<in> set merged.
        score doc =
          0.4 * last_norm VectorScore (normalize_scores vector_results VectorScore) (doc_id doc) +
          0.6 * last_norm Bm25Score (normalize_scores bm25_results Bm25Score) (doc_id doc) \<and>
        (doc_id doc \<notin> doc_id ` set vector_results \<longrightarrow>
           last_norm VectorScore (normalize_scores vector_results VectorScore) (doc_id doc) = 0) \<and>
        (doc_id doc \<notin> doc_id ` set bm25_results \<longrightarrow>
           last_norm Bm25Score (normalize_scores bm25_results Bm25Score) (doc_id doc) = 0)) \<and>
     (distinct (map doc_id vector_results) \<longrightarrow>
        (\<forall>r \<in> set (normalize_scores vector_results VectorScore).
           last_norm VectorScore (normalize_scores vector_results VectorScore) (doc_id r) =
             get_norm VectorScore r)) \<and>
     (distinct (map doc_id bm25_results) \<longrightarrow>
        (\<forall>r \<in> set (normalize_scores bm25_results Bm25Score).
           last_norm Bm25Score (normalize_scores bm25_results Bm25Score) (doc_id r) =
             get_norm Bm25Score r))"
proof -
  let ?vn = "normalize_scores vector_results VectorScore"
  let ?bn = "normalize_scores bm25_results Bm25Score"
  define md where "md = foldl add_bm25 (foldl add_vector [] ?vn) ?bn"
  define merged where "merged = sort_desc score (map fuse (map snd md))"
  have ok: "merged_ok ?vn ?bn md" unfolding md_def by (rule merged_ok_all)
  then have dist: "distinct (map fst md)"
    and keys: "fst ` set md = doc_id ` set ?vn \<union> doc_id ` set ?bn"
    and entries: "\<And>d doc. map_of md d = Some doc \<Longrightarrow>
        doc_id doc = d \<and>
        vector_score_norm doc = Some (last_norm VectorScore ?vn d) \<and>
        bm25_score_norm doc = Some (last_norm Bm25Score ?bn d)"
    unfolding merged_ok_def by blast+
  have entry: "doc_id doc = d \<and>
        vector_score_norm doc = Some (last_norm VectorScore ?vn d) \<and>
        bm25_score_norm doc = Some (last_norm Bm25Score ?bn d)" if "(d, doc) \<in> set md" for d doc
    using entries [of d doc] that dist by simp
  have ids: "map doc_id (map snd md) = map fst md"
  proof -
    have "doc_id (snd x) = fst x" if "x \<in> set md" for x
      using entry [of "fst x" "snd x"] that by simp
    then have "map (\<lambda>x. doc_id (snd x)) md = map fst md"
      by (simp only: map_eq_conv) blast
    then show ?thesis by (simp add: comp_def)
  qed
  have all_some: "\<forall>doc \<in> set (map snd md). vector_score_norm doc \<noteq> None \<and> bm25_score_norm doc \<noteq> None"
  proof
    fix doc assume "doc \<in> set (map snd md)"
    then obtain d where "(d, doc) \<in> set md" by auto
    from entry [OF this] show "vector_score_norm doc \<noteq> None \<and> bm25_score_norm doc \<noteq> None"
      by simp
  qed
  have c1: "merge_results vector_results bm25_results limit = py_take limit merged"
    by (simp add: merge_results_def Let_def md_def [symmetric] final_scores_fuse [OF all_some]
        merged_def)
  have c2: "0 \<le> limit \<longrightarrow>
        merge_results vector_results bm25_results limit = take (nat limit) merged"
    unfolding c1 by (simp add: py_take_def)
  have c3: "sorted_wrt (\<lambda>a b. score b \<le> score a) merged"
    unfolding merged_def by (rule sort_desc_sorted)
  have ids_fused: "map doc_id (map fuse (map snd md)) = map fst md"
    using ids by (simp add: comp_def)
  have c4: "distinct (map doc_id merged)"
  proof -
    have "distinct (map doc_id (map fuse (map snd md)))" unfolding ids_fused by (rule dist)
    then have "distinct (map fuse (map snd md))" "inj_on doc_id (set (map fuse (map snd md)))"
      by (simp_all only: distinct_map)
    then have "distinct merged" "inj_on doc_id (set merged)"
      by (simp_all add: merged_def sort_desc_def)
    then show ?thesis by (simp only: distinct_map)
  qed
  have c5: "doc_id ` set merged = doc_id ` set vector_results \<union> doc_id ` set bm25_results"
  proof -
    have "doc_id ` set merged = doc_id ` set (map fuse (map snd md))"
      unfolding merged_def by (simp only: sort_desc_set)
    also have "\<dots> = set (map doc_id (map fuse (map snd md)))" by (simp only: set_map)
    also have "\<dots> = fst ` set md" unfolding ids_fused by (simp only: set_map)
    finally show ?thesis by (simp add: keys)
  qed
  have c6: "\<forall>doc \<in> set merged.
        score doc =
          0.4 * last_norm VectorScore ?vn (doc_id doc) +
          0.6 * last_norm Bm25Score ?bn (doc_id doc) \<and>
        (doc_id doc \<notin> doc_id ` set vector_results \<longrightarrow>
           last_norm VectorScore ?vn (doc_id doc) = 0) \<and>
        (doc_id doc \<notin> doc_id ` set bm25_results \<longrightarrow>
           last_norm Bm25Score ?bn (doc_id doc) = 0)"
  proof (intro ballI conjI impI)
    fix doc assume "doc \<in> set merged"
    then obtain d e where e: "(d, e) \<in> set md" and doc: "doc = fuse e"
      by (auto simp: merged_def)
    from entry [OF e] show "score doc =
          0.4 * last_norm VectorScore ?vn (doc_id doc) +
          0.6 * last_norm Bm25Score ?bn (doc_id doc)"
      by (simp add: doc score_fuse get_norm_def)
  next
    fix doc assume "doc_id doc \<notin> doc_id ` set vector_results"
    then show "last_norm VectorScore ?vn (doc_id doc) = 0"
      by (intro last_norm_absent) simp
  next
    fix doc assume "doc_id doc \<notin> doc_id ` set bm25_results"
    then show "last_norm Bm25Score ?bn (doc_id doc) = 0"
      by (intro last_norm_absent) simp
  qed
  have c7: "distinct (map doc_id vector_results) \<longrightarrow>
        (\<forall>r \<in> set ?vn. last_norm VectorScore ?vn (doc_id r) = get_norm VectorScore r)"
    by (intro impI ballI last_norm_distinct) simp_all
  have c8: "distinct (map doc_id bm25_results) \<longrightarrow>
        (\<forall>r \<in> set ?bn. last_norm Bm25Score ?bn (doc_id r) = get_norm Bm25Score r)"
    by (intro impI ballI last_norm_distinct) simp_all
  from c1 c2 c3 c4 c5 c6 c7 c8 show ?thesis
    by (intro exI [of _ merged] conjI)
qed


lemma hits_merged:
  "map (\<lambda>d. (doc_id d, score d, search_type d)) (merge_results vector_hits bm25_hits 3) =
     [(ascii ''code_commerce_3_0'', 6 / 10, Some (ascii ''bm25'')),
      (ascii ''code_travail_41_0'', 4 / 10, Some (ascii ''vector'')),
      (ascii ''code_penal_12_0'', 2 / 10, Some (ascii ''hybrid''))]"
  by (simp add: merge_results_def vector_hits_def bm25_hits_def vector_hit_def bm25_hit_def
      chunk_def normalize_scores_def add_vector_def add_bm25_def final_score_def get_norm_def
      get_doc_id_def get_or_def sort_desc_def py_take_def ascii_def Let_def)

theorem merge_results_fused_witness:
  "(0::int) \<le> 3 \<and> distinct (map doc_id vector_hits) \<and> distinct (map doc_id bm25_hits) \<and>
   map (\<lambda>d. (doc_id d, score d, search_type d)) (merge_results vector_hits bm25_hits 3) =
     [(ascii ''code_commerce_3_0'', 6 / 10, Some (ascii ''bm25'')),
      (ascii ''code_travail_41_0'', 4 / 10, Some (ascii ''vector'')),
      (ascii ''code_penal_12_0'', 2 / 10, Some (ascii ''hybrid''))] \<and>
   sorted_wrt (\<lambda>a b. score b \<le> score a) (merge_results vector_hits bm25_hits 3)"
proof -
  from merge_results_fused [of vector_hits bm25_hits 3]
  obtain merged where m: "merge_results vector_hits bm25_hits 3 = take (nat 3) merged"
    and s: "sorted_wrt (\<lambda>a b. score b \<le> score a) merged"
    by auto
  have "sorted_wrt (\<lambda>a b. score b \<le> score a) (take (nat 3) merged)"
    using s by (rule sorted_wrt_take)
  then have sorted: "sorted_wrt (\<lambda>a b. score b \<le> score a) (merge_results vector_hits bm25_hits 3)"
    unfolding m .
  have d1: "distinct (map doc_id vector_hits)"
    by (simp add: vector_hits_def vector_hit_def chunk_def get_doc_id_def get_or_def ascii_def)
  have d2: "distinct (map doc_id bm25_hits)"
    by (simp add: bm25_hits_def bm25_hit_def chunk_def get_doc_id_def get_or_def ascii_def)
  from sorted d1 d2 hits_merged show ?thesis by simp
qed

end
